theory Spec2Isabelle
  imports Complex_Main "HOL-Library.Multiset" "HOL-Library.Log_Nat"
begin

section \<open>Data model (hub/core/models.py)\<close>

text \<open>
  Primary keys are the non-negative integers of an auto-incrementing column, time stamps
  are integers (a clock reading).  Every foreign key is stored as the key of the row it
  points to, as in the relational schema.
\<close>

type_synonym ident = nat
type_synonym timestamp = int

record author =
  author_id :: ident
  author_name :: string
  author_bio :: string
  author_birth_date :: "int option"

record book =
  book_id :: ident
  book_title :: string
  book_author :: ident
  book_isbn :: string
  book_publication_year :: int
  book_description :: string
  book_cover_image :: "string option"
  book_created_at :: timestamp
  book_updated_at :: timestamp

record review =
  review_id :: ident
  review_book :: ident
  review_user :: ident
  review_rating :: int
  review_text :: string
  review_created_at :: timestamp
  review_updated_at :: timestamp

record reading_list =
  rl_id :: ident
  rl_name :: string
  rl_user :: ident
  rl_books :: "ident list"
  rl_description :: string
  rl_is_public :: bool
  rl_created_at :: timestamp

text \<open>
  The relational store: one table per model, the table of the framework's users (by key),
  and the next value of each table's key sequence.
\<close>

record store =
  users :: "ident list"
  authors :: "author list"
  books :: "book list"
  reviews :: "review list"
  reading_lists :: "reading_list list"
  next_author_id :: ident
  next_book_id :: ident
  next_review_id :: ident
  next_reading_list_id :: ident

definition RATING_CHOICES :: "(int \<times> string) list" where
  "RATING_CHOICES =
     [(1, ''1 - Poor''), (2, ''2 - Fair''), (3, ''3 - Good''),
      (4, ''4 - Very Good''), (5, ''5 - Excellent'')]"

section \<open>Aggregation helpers\<close>

text \<open>
  \<open>Avg\<close> is the aggregate of the query layer, as a number: the mean of the column, and
  NULL (\<open>None\<close>) over no rows.
\<close>

definition Avg :: "int list \<Rightarrow> rat option" where
  "Avg xs = (if xs = [] then None else Some (of_int (sum_list xs) / of_nat (length xs)))"

text \<open>
  The integer nearest to \<open>y\<close>; \<open>up\<close> says which way an exact half goes.
\<close>

definition round_nearest :: "bool \<Rightarrow> rat \<Rightarrow> int" where
  "round_nearest up y =
     (let f = \<lfloor>y\<rfloor>;
          d = y - of_int f
      in if d < 1 / 2 then f
         else if 1 / 2 < d then f + 1
         else if up then f + 1 else f)"

text \<open>
  The database hands the mean over as a double: the quotient of the sum and the count,
  rounded to the nearest number with a 53-bit significand, an exact half going to the
  even significand.  \<open>floor_log2 x\<close> is the exponent \<open>e\<close> with
  \<open>2 ^ e \<le> x < 2 ^ (e + 1)\<close>.  (The exponent range of a double is not modelled: the
  mean of a column of machine integers is far inside it.  The sum is taken to be exact,
  as it is below \<open>2 ^ 53\<close>.)
\<close>

definition floor_log2 :: "rat \<Rightarrow> int" where
  "floor_log2 x = (if 1 \<le> x then bitlen \<lfloor>x\<rfloor> - 1 else - bitlen (\<lceil>1 / x\<rceil> - 1))"

definition to_double :: "rat \<Rightarrow> rat" where
  "to_double x =
     (if x = 0 then 0
      else
        (let e = floor_log2 \<bar>x\<bar> - 52;
             y = \<bar>x\<bar> / 2 powi e;
             m = round_nearest (odd \<lfloor>y\<rfloor>) y
         in sgn x * of_int m * 2 powi e))"

text \<open>
  Python's \<open>round(x, ndigits)\<close> on a float returns the multiple of \<open>10 ^ (- ndigits)\<close>
  nearest to the stored binary value.  \<open>average_rating\<close> below rounds the exact mean:
  the rounding to two decimals absorbs the representation error of the double, except
  when the exact mean lies half-way between two such multiples.  Then the direction
  depends on how the mean was represented in binary: \<open>tie_up\<close> decides that case and
  stays a parameter, so that every statement about \<open>average_rating\<close> holds for either
  direction.
\<close>

definition py_round :: "(rat \<Rightarrow> bool) \<Rightarrow> rat \<Rightarrow> nat \<Rightarrow> rat" where
  "py_round tie_up x ndigits =
     of_int (round_nearest (tie_up x) (x * 10 ^ ndigits)) / 10 ^ ndigits"

text \<open>\<open>self.reviews\<close>: the reviews whose foreign key is this book.\<close>

definition book_reviews :: "store \<Rightarrow> book \<Rightarrow> review list" where
  "book_reviews s b = filter (\<lambda>r. review_book r = book_id b) (reviews s)"

text \<open>
  \<open>round(avg, 2) if avg else 0\<close>: the test is false for \<open>None\<close> and for a mean
  of zero.
\<close>

definition average_rating :: "(rat \<Rightarrow> bool) \<Rightarrow> store \<Rightarrow> book \<Rightarrow> rat" where
  "average_rating tie_up s b =
     (let avg = Avg (map review_rating (book_reviews s b))
      in case avg of
           None \<Rightarrow> 0
         | Some a \<Rightarrow> if a \<noteq> 0 then py_round tie_up a 2 else 0)"

definition review_count :: "store \<Rightarrow> book \<Rightarrow> nat" where
  "review_count s b = length (book_reviews s b)"

text \<open>
  \<open>Book.objects.all()\<close>: every row of the table, in the order of \<open>Meta.ordering\<close>
  (newest first; rows created at the same instant keep their table order here).
\<close>

definition all_books :: "store \<Rightarrow> book list" where
  "all_books s = sort_key (\<lambda>b. - book_created_at b) (books s)"

definition published :: "store \<Rightarrow> book list" where
  "published s = all_books s"

text \<open>
  \<open>annotate(avg_rating=Avg('reviews__rating')).filter(avg_rating__gte=min_rating)\<close>:
  one grouped query.  Each book is paired with the aggregate over its reviews, a double,
  and the database compares that double with \<open>min_rating\<close>; a comparison with NULL is
  not true, so a row whose aggregate is NULL is dropped.  A grouped query does not apply
  \<open>Meta.ordering\<close>: its rows come in the order of the grouping key.
\<close>

definition gte :: "rat option \<Rightarrow> rat \<Rightarrow> bool" where
  "gte v m = (case v of None \<Rightarrow> False | Some a \<Rightarrow> m \<le> a)"

definition annotate_avg_rating :: "store \<Rightarrow> (book \<times> rat option) list" where
  "annotate_avg_rating s =
     map (\<lambda>b. (b, map_option to_double (Avg (map review_rating (book_reviews s b)))))
       (sort_key book_id (books s))"

definition highly_rated :: "store \<Rightarrow> rat \<Rightarrow> book list" where
  "highly_rated s min_rating =
     map fst (filter (\<lambda>(b, avg_rating). gte avg_rating min_rating) (annotate_avg_rating s))"

text \<open>The arithmetic mean, as the specification words it.\<close>

definition mean :: "int list \<Rightarrow> rat" where
  "mean xs = of_int (sum_list xs) / of_nat (length xs)"

section \<open>Requests, responses and errors\<close>

datatype http_method = GET | POST | OTHER

text \<open>
  A request parameter that the code hands to an integer primary-key lookup is modelled
  by what the lookup sees: \<open>Missing\<close> is an absent or empty value (false in a Python
  test), \<open>Unparsable\<close> a non-empty text that \<open>int()\<close> rejects, \<open>Pk n\<close> a non-empty
  text that \<open>int()\<close> reads as \<open>n\<close>.
\<close>

datatype post_pk = Missing | Unparsable | Pk int

text \<open>
  The \<open>page\<close> parameter of a list view: absent or empty, the word \<open>last\<close>, a text
  that \<open>int()\<close> reads, or any other text.
\<close>

datatype page_param = Page_absent | Page_last | Page_number int | Page_invalid

record request =
  req_method :: http_method
  req_session_user :: "ident option"
  req_time :: timestamp
  get_page :: page_param
  post_rating :: "string option"
  post_review_text :: "string option"
  post_reading_list :: post_pk
  post_new_list_name :: "string option"

text \<open>
  \<open>Http404\<close> is the specification's NotFound, \<open>IntegrityError\<close> is raised by the
  store when a constraint rejects a row; for a uniqueness constraint it is the
  specification's UniquenessViolation.
\<close>

datatype error = Http404 | IntegrityError | ValueError | MultipleObjectsReturned

datatype response =
    Redirect_login
  | Redirect_book_detail ident
  | Render_add_review
  | Render_reading_list "reading_list list"

text \<open>
  \<open>request.user\<close>: the session's user when that user exists in the store, the anonymous
  user (\<open>None\<close>) otherwise.
\<close>

definition request_user :: "store \<Rightarrow> request \<Rightarrow> ident option" where
  "request_user s request =
     (case req_session_user request of
        None \<Rightarrow> None
      | Some u \<Rightarrow> if u \<in> set (users s) then Some u else None)"

text \<open>
  \<open>get_object_or_404\<close>: the one row that matches; no row is \<open>Http404\<close>, and
  \<open>QuerySet.get\<close> raises on more than one.
\<close>

definition get_object_or_404 :: "'a list \<Rightarrow> ('a \<Rightarrow> bool) \<Rightarrow> error + 'a" where
  "get_object_or_404 table cond =
     (case filter cond table of
        [] \<Rightarrow> Inl Http404
      | [x] \<Rightarrow> Inr x
      | _ \<Rightarrow> Inl MultipleObjectsReturned)"

section \<open>The review form (hub/core/forms.py)\<close>

text \<open>Python's \<open>str\<close> of an integer, which the choice field compares the posted text with.\<close>

fun str_nat :: "nat \<Rightarrow> string" where
  "str_nat n =
     (if n < 10 then [char_of (48 + n)]
      else str_nat (n div 10) @ [char_of (48 + n mod 10)])"

declare str_nat.simps [simp del]

definition str_int :: "int \<Rightarrow> string" where
  "str_int i = (if i < 0 then CHR ''-'' # str_nat (nat (- i)) else str_nat (nat i))"

text \<open>
  \<open>rating\<close> is a required choice field over \<open>RATING_CHOICES\<close> with \<open>int\<close> as
  coercion: the posted text must be the \<open>str\<close> of one of the keys.
\<close>

definition clean_rating :: "string option \<Rightarrow> int option" where
  "clean_rating v =
     (case v of
        None \<Rightarrow> None
      | Some t \<Rightarrow> map_option fst (find (\<lambda>(k, label). str_int k = t) RATING_CHOICES))"

text \<open>
  \<open>review_text\<close> is a required text field: the posted text is stripped of surrounding
  white space, must not be empty afterwards and must not contain a null character.
  Characters are the code points below 256.
\<close>

definition py_isspace :: "char \<Rightarrow> bool" where
  "py_isspace c =
     (let n = (of_char c :: nat)
      in (9 \<le> n \<and> n \<le> 13) \<or> (28 \<le> n \<and> n \<le> 32) \<or> n = 133 \<or> n = 160)"

definition py_strip :: "string \<Rightarrow> string" where
  "py_strip t = rev (dropWhile py_isspace (rev (dropWhile py_isspace t)))"

definition clean_review_text :: "string option \<Rightarrow> string option" where
  "clean_review_text v =
     (case v of
        None \<Rightarrow> None
      | Some t \<Rightarrow>
          (let t' = py_strip t
           in if t' = [] \<or> char_of (0::nat) \<in> set t' then None else Some t'))"

text \<open>\<open>ReviewForm(request.POST)\<close>: the cleaned fields when \<open>is_valid()\<close>, else \<open>None\<close>.\<close>

definition ReviewForm :: "request \<Rightarrow> (int \<times> string) option" where
  "ReviewForm request =
     (case (clean_rating (post_rating request), clean_review_text (post_review_text request)) of
        (Some rating, Some text) \<Rightarrow> Some (rating, text)
      | _ \<Rightarrow> None)"

section \<open>Review submission (views.add_review)\<close>

text \<open>
  \<open>review.save()\<close> inserts a row.  \<open>unique_together = ['book', 'user']\<close> is a constraint
  of the table: the store rejects a row whose (book, user) pair is already there.  The
  form does not check it, because neither field is a field of the form.
\<close>

definition review_save ::
  "store \<Rightarrow> ident \<Rightarrow> ident \<Rightarrow> int \<Rightarrow> string \<Rightarrow> timestamp \<Rightarrow> error + store" where
  "review_save s b u rating text now =
     (if \<exists>r \<in> set (reviews s). review_book r = b \<and> review_user r = u
      then Inl IntegrityError
      else Inr (s\<lparr>reviews := reviews s @
                    [\<lparr>review_id = next_review_id s, review_book = b, review_user = u,
                      review_rating = rating, review_text = text,
                      review_created_at = now, review_updated_at = now\<rparr>],
                  next_review_id := Suc (next_review_id s)\<rparr>))"

definition add_review :: "store \<Rightarrow> request \<Rightarrow> ident \<Rightarrow> (error + response) \<times> store" where
  "add_review s request bid =
     (case request_user s request of
        None \<Rightarrow> (Inr Redirect_login, s)
      | Some user \<Rightarrow>
          (case get_object_or_404 (books s) (\<lambda>b. book_id b = bid) of
             Inl e \<Rightarrow> (Inl e, s)
           | Inr book \<Rightarrow>
               if req_method request = POST then
                 (case ReviewForm request of
                    Some (rating, text) \<Rightarrow>
                      (case review_save s (book_id book) user rating text (req_time request) of
                         Inl e \<Rightarrow> (Inl e, s)
                       | Inr s' \<Rightarrow> (Inr (Redirect_book_detail (book_id book)), s'))
                  | None \<Rightarrow> (Inr Render_add_review, s))
               else (Inr Render_add_review, s)))"

section \<open>Reading lists (views.ReadingListView, views.add_to_reading_list)\<close>

definition get_queryset :: "store \<Rightarrow> ident \<Rightarrow> reading_list list" where
  "get_queryset s user = filter (\<lambda>l. rl_user l = user) (reading_lists s)"

text \<open>\<open>LoginRequiredMixin\<close> sends an anonymous request to the login page.\<close>

definition ReadingListView :: "store \<Rightarrow> request \<Rightarrow> response" where
  "ReadingListView s request =
     (case request_user s request of
        None \<Rightarrow> Redirect_login
      | Some user \<Rightarrow> Render_reading_list (get_queryset s user))"

text \<open>\<open>reading_list.books.add(book)\<close>: the relation holds a pair once.\<close>

definition books_add :: "store \<Rightarrow> ident \<Rightarrow> ident \<Rightarrow> store" where
  "books_add s lid bid =
     s\<lparr>reading_lists :=
         map (\<lambda>l. if rl_id l = lid
                  then l\<lparr>rl_books := (if bid \<in> set (rl_books l) then rl_books l
                                        else rl_books l @ [bid])\<rparr>
                  else l)
             (reading_lists s)\<rparr>"

text \<open>
  \<open>ReadingList.objects.create(name=name, user=request.user)\<close>: the other fields take
  their defaults.
\<close>

definition reading_list_create :: "store \<Rightarrow> string \<Rightarrow> ident \<Rightarrow> timestamp \<Rightarrow> reading_list \<times> store" where
  "reading_list_create s name user now =
     (let l = \<lparr>rl_id = next_reading_list_id s, rl_name = name, rl_user = user,
               rl_books = [], rl_description = [], rl_is_public = True,
               rl_created_at = now\<rparr>
      in (l, s\<lparr>reading_lists := reading_lists s @ [l],
               next_reading_list_id := Suc (next_reading_list_id s)\<rparr>))"

definition add_to_reading_list :: "store \<Rightarrow> request \<Rightarrow> ident \<Rightarrow> (error + response) \<times> store" where
  "add_to_reading_list s request bid =
     (case request_user s request of
        None \<Rightarrow> (Inr Redirect_login, s)
      | Some user \<Rightarrow>
          (case get_object_or_404 (books s) (\<lambda>b. book_id b = bid) of
             Inl e \<Rightarrow> (Inl e, s)
           | Inr book \<Rightarrow>
               if req_method request = POST then
                 (case post_reading_list request of
                    Pk n \<Rightarrow>
                      (case get_object_or_404 (reading_lists s)
                              (\<lambda>l. int (rl_id l) = n \<and> rl_user l = user) of
                         Inl e \<Rightarrow> (Inl e, s)
                       | Inr reading_list \<Rightarrow>
                           (Inr (Redirect_book_detail (book_id book)),
                            books_add s (rl_id reading_list) (book_id book)))
                  | Unparsable \<Rightarrow> (Inl ValueError, s)
                  | Missing \<Rightarrow>
                      (case post_new_list_name request of
                         Some name \<Rightarrow>
                           if name \<noteq> [] then
                             (let (reading_list, s') = reading_list_create s name user (req_time request)
                              in (Inr (Redirect_book_detail (book_id book)),
                                  books_add s' (rl_id reading_list) (book_id book)))
                           else (Inr (Redirect_book_detail (book_id book)), s)
                       | None \<Rightarrow> (Inr (Redirect_book_detail (book_id book)), s)))
               else (Inr (Redirect_book_detail (book_id book)), s)))"

section \<open>Paginated listings (views.BookListView, views.AuthorListView)\<close>

text \<open>
  The paginator of the list views, with no orphans and an empty first page allowed:
  the number of pages is \<open>ceil(max(1, count) / per_page)\<close>, a page number outside
  \<open>1 .. num_pages\<close> is refused, and page \<open>number\<close> is the slice
  \<open>object_list[bottom:top]\<close>.
\<close>

definition num_pages :: "nat \<Rightarrow> nat \<Rightarrow> nat" where
  "num_pages cnt per_page = (max 1 cnt + per_page - 1) div per_page"

definition paginator_page :: "'a list \<Rightarrow> nat \<Rightarrow> int \<Rightarrow> error + 'a list" where
  "paginator_page object_list per_page number =
     (if number < 1 then Inl Http404
      else if int (num_pages (length object_list) per_page) < number then Inl Http404
      else
        (let cnt = length object_list;
             bottom = (nat number - 1) * per_page;
             top = bottom + per_page;
             top = (if cnt \<le> top then cnt else top)
         in Inr (take (top - bottom) (drop bottom object_list))))"

definition paginate_queryset :: "'a list \<Rightarrow> nat \<Rightarrow> page_param \<Rightarrow> error + 'a list" where
  "paginate_queryset queryset page_size page =
     (case page of
        Page_absent \<Rightarrow> paginator_page queryset page_size 1
      | Page_number n \<Rightarrow> paginator_page queryset page_size n
      | Page_last \<Rightarrow>
          paginator_page queryset page_size (int (num_pages (length queryset) page_size))
      | Page_invalid \<Rightarrow> Inl Http404)"

text \<open>The two list views, answering a GET request: a page of the model's rows.\<close>

definition BookListView :: "store \<Rightarrow> request \<Rightarrow> error + book list" where
  "BookListView s request = paginate_queryset (all_books s) 12 (get_page request)"

definition AuthorListView :: "store \<Rightarrow> request \<Rightarrow> error + author list" where
  "AuthorListView s request = paginate_queryset (authors s) 20 (get_page request)"

section \<open>Saving new rows\<close>

text \<open>
  The create views (\<open>AddAuthorView\<close>, \<open>AddBookView\<close>, \<open>CreateReadingListView\<close>) save
  the row their form accepted.  Saving a new row gives it the next key of its table and,
  for \<open>auto_now_add\<close> and \<open>auto_now\<close> fields, the current time.  The store enforces
  the constraints of the schema, whoever saves: a foreign key must be the key of an
  existing row and \<open>isbn\<close> is unique, else the row is rejected with \<open>IntegrityError\<close>.
\<close>

definition author_save :: "store \<Rightarrow> author \<Rightarrow> store" where
  "author_save s a =
     s\<lparr>authors := authors s @ [a\<lparr>author_id := next_author_id s\<rparr>],
       next_author_id := Suc (next_author_id s)\<rparr>"

definition book_save :: "store \<Rightarrow> book \<Rightarrow> timestamp \<Rightarrow> error + store" where
  "book_save s b now =
     (if book_author b \<notin> author_id ` set (authors s) then Inl IntegrityError
      else if book_isbn b \<in> book_isbn ` set (books s) then Inl IntegrityError
      else Inr (s\<lparr>books := books s @
                    [b\<lparr>book_id := next_book_id s, book_created_at := now,
                       book_updated_at := now\<rparr>],
                  next_book_id := Suc (next_book_id s)\<rparr>))"

text \<open>
  A reading list is saved in two steps, as a model form does: the row, and then
  \<open>books.set(...)\<close> writes the rows of the relation, each pair once.
\<close>

definition reading_list_save :: "store \<Rightarrow> reading_list \<Rightarrow> timestamp \<Rightarrow> error + store" where
  "reading_list_save s l now =
     (if rl_user l \<notin> set (users s) then Inl IntegrityError
      else Inr (s\<lparr>reading_lists := reading_lists s @
                    [l\<lparr>rl_id := next_reading_list_id s, rl_books := [],
                       rl_created_at := now\<rparr>],
                  next_reading_list_id := Suc (next_reading_list_id s)\<rparr>))"

definition books_set :: "store \<Rightarrow> ident \<Rightarrow> ident list \<Rightarrow> error + store" where
  "books_set s lid bids =
     (if \<exists>b \<in> set bids. b \<notin> book_id ` set (books s) then Inl IntegrityError
      else Inr (s\<lparr>reading_lists :=
                    map (\<lambda>l. if rl_id l = lid then l\<lparr>rl_books := remdups bids\<rparr> else l)
                        (reading_lists s)\<rparr>))"

text \<open>The store after an attempt to save: unchanged when the row was rejected.\<close>

definition saved :: "store \<Rightarrow> error + store \<Rightarrow> store" where
  "saved s r = (case r of Inl e \<Rightarrow> s | Inr s' \<Rightarrow> s')"

definition reading_list_save_with_books :: "store \<Rightarrow> reading_list \<Rightarrow> timestamp \<Rightarrow> store" where
  "reading_list_save_with_books s l now =
     (case reading_list_save s l now of
        Inl e \<Rightarrow> s
      | Inr s' \<Rightarrow> saved s' (books_set s' (next_reading_list_id s) (rl_books l)))"

section \<open>Deletion\<close>

text \<open>
  Every foreign key of the schema is declared with \<open>on_delete=models.CASCADE\<close>:
  deleting a row deletes the rows that point to it, and theirs in turn.  The rows of the
  relation between reading lists and books point to both and go with either.
\<close>

definition delete_books_where :: "store \<Rightarrow> (book \<Rightarrow> bool) \<Rightarrow> store" where
  "delete_books_where s doomed =
     (let gone = map book_id (filter doomed (books s))
      in s\<lparr>books := filter (\<lambda>b. \<not> doomed b) (books s),
           reviews := filter (\<lambda>r. review_book r \<notin> set gone) (reviews s),
           reading_lists :=
             map (\<lambda>l. l\<lparr>rl_books := filter (\<lambda>b. b \<notin> set gone) (rl_books l)\<rparr>)
                 (reading_lists s)\<rparr>)"

definition delete_book :: "store \<Rightarrow> ident \<Rightarrow> store" where
  "delete_book s bid = delete_books_where s (\<lambda>b. book_id b = bid)"

definition delete_author :: "store \<Rightarrow> ident \<Rightarrow> store" where
  "delete_author s aid =
     (let s' = delete_books_where s (\<lambda>b. book_author b = aid)
      in s'\<lparr>authors := filter (\<lambda>a. author_id a \<noteq> aid) (authors s')\<rparr>)"

definition delete_user :: "store \<Rightarrow> ident \<Rightarrow> store" where
  "delete_user s uid =
     s\<lparr>users := filter (\<lambda>u. u \<noteq> uid) (users s),
       reviews := filter (\<lambda>r. review_user r \<noteq> uid) (reviews s),
       reading_lists := filter (\<lambda>l. rl_user l \<noteq> uid) (reading_lists s)\<rparr>"

definition delete_review :: "store \<Rightarrow> ident \<Rightarrow> store" where
  "delete_review s rid = s\<lparr>reviews := filter (\<lambda>r. review_id r \<noteq> rid) (reviews s)\<rparr>"

definition delete_reading_list :: "store \<Rightarrow> ident \<Rightarrow> store" where
  "delete_reading_list s lid =
     s\<lparr>reading_lists := filter (\<lambda>l. rl_id l \<noteq> lid) (reading_lists s)\<rparr>"

section \<open>Store invariants and operations\<close>

text \<open>No dangling reference: every foreign key is the key of a row that exists.\<close>

definition fk_ok :: "store \<Rightarrow> bool" where
  "fk_ok s \<longleftrightarrow>
     (\<forall>b \<in> set (books s). book_author b \<in> author_id ` set (authors s)) \<and>
     (\<forall>r \<in> set (reviews s).
        review_book r \<in> book_id ` set (books s) \<and> review_user r \<in> set (users s)) \<and>
     (\<forall>l \<in> set (reading_lists s).
        rl_user l \<in> set (users s) \<and> set (rl_books l) \<subseteq> book_id ` set (books s))"

text \<open>At most one review for each (book, user) pair.\<close>

definition unique_together :: "store \<Rightarrow> bool" where
  "unique_together s \<longleftrightarrow> distinct (map (\<lambda>r. (review_book r, review_user r)) (reviews s))"

text \<open>Every stored rating is one of the choices.\<close>

definition ratings_valid :: "store \<Rightarrow> bool" where
  "ratings_valid s \<longleftrightarrow> (\<forall>r \<in> set (reviews s). review_rating r \<in> fst ` set RATING_CHOICES)"

text \<open>
  The keys of the reading lists are unique, and the key sequence is ahead of them.
\<close>

definition pk_ok :: "store \<Rightarrow> bool" where
  "pk_ok s \<longleftrightarrow>
     distinct (map rl_id (reading_lists s)) \<and>
     (\<forall>l \<in> set (reading_lists s). rl_id l < next_reading_list_id s)"

text \<open>
  The operations that change the store: the two request handlers that write, saving a
  new author, book or reading list, and the deletion of a row of any table.
\<close>

datatype operation =
    Add_review request ident
  | Add_to_reading_list request ident
  | Save_author author
  | Save_book book timestamp
  | Save_reading_list reading_list timestamp
  | Delete_author ident
  | Delete_book ident
  | Delete_user ident
  | Delete_review ident
  | Delete_reading_list ident

fun perform :: "store \<Rightarrow> operation \<Rightarrow> store" where
  "perform s (Add_review request bid) = snd (add_review s request bid)"
| "perform s (Add_to_reading_list request bid) = snd (add_to_reading_list s request bid)"
| "perform s (Save_author a) = author_save s a"
| "perform s (Save_book b now) = saved s (book_save s b now)"
| "perform s (Save_reading_list l now) = reading_list_save_with_books s l now"
| "perform s (Delete_author aid) = delete_author s aid"
| "perform s (Delete_book bid) = delete_book s bid"
| "perform s (Delete_user uid) = delete_user s uid"
| "perform s (Delete_review rid) = delete_review s rid"
| "perform s (Delete_reading_list lid) = delete_reading_list s lid"

section \<open>A sample store\<close>

definition sample_book :: "ident \<Rightarrow> ident \<Rightarrow> timestamp \<Rightarrow> book" where
  "sample_book i a t =
     \<lparr>book_id = i, book_title = ''Title X'', book_author = a,
      book_isbn = ''111111111111'' @ str_nat i, book_publication_year = 2020, book_description = [], book_cover_image = None,
      book_created_at = t, book_updated_at = t\<rparr>"

definition sample_review :: "ident \<Rightarrow> ident \<Rightarrow> ident \<Rightarrow> int \<Rightarrow> review" where
  "sample_review i b u r =
     \<lparr>review_id = i, review_book = b, review_user = u, review_rating = r,
      review_text = ''fine'', review_created_at = 50, review_updated_at = 50\<rparr>"

definition sample_list :: "ident \<Rightarrow> ident \<Rightarrow> bool \<Rightarrow> ident list \<Rightarrow> reading_list" where
  "sample_list i u p bs =
     \<lparr>rl_id = i, rl_name = ''shelf'', rl_user = u, rl_books = bs, rl_description = [],
      rl_is_public = p, rl_created_at = 60\<rparr>"

definition book_1 :: book where
  "book_1 = sample_book 1 1 10"

definition book_2 :: book where
  "book_2 = sample_book 2 1 20"

definition book_3 :: book where
  "book_3 = sample_book 3 1 30"

definition list_1 :: reading_list where
  "list_1 = sample_list 1 1 False [1]"

definition list_2 :: reading_list where
  "list_2 = sample_list 2 2 True [2]"

text \<open>
  Three users, one author, three books: book 1 has the ratings 3 and 5, book 2 has none,
  book 3 has the ratings 3, 4 and 4.  User 1 owns a private list, user 2 a public one.
\<close>

definition sample_store :: store where
  "sample_store =
     \<lparr>users = [1, 2, 3],
      authors = [\<lparr>author_id = 1, author_name = ''A. Writer'', author_bio = [],
                  author_birth_date = None\<rparr>],
      books = [book_1, book_2, book_3],
      reviews = [sample_review 1 1 1 3, sample_review 2 1 2 5,
                 sample_review 3 3 1 3, sample_review 4 3 2 4, sample_review 5 3 3 4],
      reading_lists = [list_1, list_2],
      next_author_id = 2, next_book_id = 4, next_review_id = 6, next_reading_list_id = 3\<rparr>"

text \<open>The sample store with other reviews: book 2 has the ratings 1, 2 and 2.\<close>

definition rounding_store :: store where
  "rounding_store =
     sample_store\<lparr>reviews := [sample_review 1 2 1 1, sample_review 2 2 2 2,
                               sample_review 3 2 3 2]\<rparr>"

definition ties_down :: "rat \<Rightarrow> bool" where
  "ties_down x = False"

definition sample_request :: request where
  "sample_request =
     \<lparr>req_method = POST, req_session_user = Some 1, req_time = 100, get_page = Page_absent,
      post_rating = Some ''4'', post_review_text = Some ''A good read.'',
      post_reading_list = Missing, post_new_list_name = Some ''To read''\<rparr>"

text \<open>A GET request of the same user, for the views that list.\<close>

definition get_request :: request where
  "get_request = sample_request\<lparr>req_method := GET\<rparr>"

text \<open>
  The same request choosing the list of another user, choosing the requester's own list,
  and with neither a list nor a name.
\<close>

definition request_list_2 :: request where
  "request_list_2 = sample_request\<lparr>post_reading_list := Pk 2\<rparr>"

definition request_list_1 :: request where
  "request_list_1 = sample_request\<lparr>post_reading_list := Pk 1\<rparr>"

definition request_nothing :: request where
  "request_nothing = sample_request\<lparr>post_new_list_name := None\<rparr>"

section \<open>Rounding\<close>

lemma floor_rat_numeral: "\<lfloor>(numeral a / numeral b :: rat)\<rfloor> = numeral a div numeral b"
  by (metis floor_divide_of_int_eq of_int_numeral)

lemma round_nearest_near: "\<bar>of_int (round_nearest up y) - y\<bar> \<le> 1 / 2"
proof -
  have "of_int \<lfloor>y\<rfloor> \<le> y" "y < of_int \<lfloor>y\<rfloor> + 1"
    by linarith+
  then show ?thesis
    by (auto simp: round_nearest_def Let_def)
qed

lemma round_nearest_lower: "of_int a \<le> y \<Longrightarrow> a \<le> round_nearest up y"
proof -
  assume "of_int a \<le> y"
  then have "a \<le> \<lfloor>y\<rfloor>" by (simp add: le_floor_iff)
  then show ?thesis by (auto simp: round_nearest_def Let_def)
qed

lemma round_nearest_upper: "y \<le> of_int b \<Longrightarrow> round_nearest up y \<le> b"
proof -
  assume le: "y \<le> of_int b"
  then have fb: "\<lfloor>y\<rfloor> \<le> b" by (simp add: floor_le_iff)
  show ?thesis
  proof (cases "\<lfloor>y\<rfloor> = b")
    case True
    with le have "y - of_int \<lfloor>y\<rfloor> \<le> 0" by simp
    then have "y - of_int \<lfloor>y\<rfloor> < 1 / 2" by linarith
    then show ?thesis using True by (simp add: round_nearest_def Let_def)
  next
    case False
    with fb have "\<lfloor>y\<rfloor> + 1 \<le> b" by simp
    then show ?thesis using fb by (auto simp: round_nearest_def Let_def)
  qed
qed

lemma py_round_near: "\<bar>py_round t x n - x\<bar> \<le> 1 / (2 * 10 ^ n)"
proof -
  have pos: "(0::rat) < 10 ^ n" by simp
  have "\<bar>py_round t x n - x\<bar> = \<bar>of_int (round_nearest (t x) (x * 10 ^ n)) - x * 10 ^ n\<bar> / 10 ^ n"
    by (simp add: py_round_def field_simps abs_divide flip: abs_mult)
  also have "\<dots> \<le> (1 / 2) / 10 ^ n"
    by (rule divide_right_mono [OF round_nearest_near less_imp_le [OF pos]])
  finally show ?thesis by simp
qed

lemma py_round_grid: "\<exists>k::int. py_round t x n = of_int k / 10 ^ n"
  unfolding py_round_def by blast

lemma py_round_lower: "of_int a \<le> x \<Longrightarrow> of_int a \<le> py_round t x n"
proof -
  assume "of_int a \<le> x"
  then have "of_int (a * 10 ^ n) \<le> x * 10 ^ n" by simp
  then have "a * 10 ^ n \<le> round_nearest (t x) (x * 10 ^ n)" by (rule round_nearest_lower)
  then have "(of_int (a * 10 ^ n) :: rat) \<le> of_int (round_nearest (t x) (x * 10 ^ n))"
    by (simp only: of_int_le_iff)
  then show ?thesis by (simp add: py_round_def pos_le_divide_eq)
qed

lemma py_round_upper: "x \<le> of_int b \<Longrightarrow> py_round t x n \<le> of_int b"
proof -
  assume "x \<le> of_int b"
  then have "x * 10 ^ n \<le> of_int (b * 10 ^ n)" by simp
  then have "round_nearest (t x) (x * 10 ^ n) \<le> b * 10 ^ n" by (rule round_nearest_upper)
  then have "(of_int (round_nearest (t x) (x * 10 ^ n)) :: rat) \<le> of_int (b * 10 ^ n)"
    by (simp only: of_int_le_iff)
  then show ?thesis by (simp add: py_round_def pos_divide_le_eq)
qed

lemma py_round_zero: "py_round t 0 n = 0"
  by (simp add: py_round_def round_nearest_def)

section \<open>The average rating\<close>

lemma Avg_mean: "xs \<noteq> [] \<Longrightarrow> Avg xs = Some (mean xs)"
  by (simp add: Avg_def mean_def)

lemma average_rating_empty: "book_reviews s b = [] \<Longrightarrow> average_rating t s b = 0"
  by (simp add: average_rating_def Avg_def)

lemma average_rating_nonempty:
  "book_reviews s b \<noteq> [] \<Longrightarrow>
   average_rating t s b = py_round t (mean (map review_rating (book_reviews s b))) 2"
  by (simp add: average_rating_def Avg_mean py_round_zero)

lemma sample_reviews_1:
  "map review_rating (book_reviews sample_store book_1) = [3, 5]"
  by (simp add: book_reviews_def sample_store_def book_1_def book_2_def book_3_def
      sample_book_def sample_review_def)

lemma sample_reviews_2: "book_reviews sample_store book_2 = []"
  by (simp add: book_reviews_def sample_store_def book_1_def book_2_def book_3_def
      sample_book_def sample_review_def)

lemma sample_reviews_3:
  "map review_rating (book_reviews sample_store book_3) = [3, 4, 4]"
  by (simp add: book_reviews_def sample_store_def book_1_def book_2_def book_3_def
      sample_book_def sample_review_def)

text \<open>
  C1.  For every book, \<open>average_rating\<close> is 0 when the book has no reviews (and then
  \<open>review_count\<close> is 0 too); otherwise it is the arithmetic mean of the book's ratings
  rounded to two decimal places: a multiple of 1/100 that is at most 1/200 away from the
  mean.  For the ratings 3 and 5 it is 4.
\<close>

theorem average_rating_mean_rounded:
  "(book_reviews s b = [] \<longrightarrow> average_rating t s b = 0 \<and> review_count s b = 0) \<and>
   (book_reviews s b \<noteq> [] \<longrightarrow>
      (\<exists>k::int. average_rating t s b = of_int k / 100) \<and>
      \<bar>average_rating t s b - mean (map review_rating (book_reviews s b))\<bar> \<le> 1 / 200) \<and>
   (map review_rating (book_reviews s b) = [3, 5] \<longrightarrow> average_rating t s b = 4)"
proof (intro conjI impI)
  assume "book_reviews s b = []"
  then show "average_rating t s b = 0" by (rule average_rating_empty)
next
  assume "book_reviews s b = []"
  then show "review_count s b = 0" by (simp add: review_count_def)
next
  assume ne: "book_reviews s b \<noteq> []"
  show "\<exists>k::int. average_rating t s b = of_int k / 100"
    using py_round_grid [of t _ 2] by (simp add: average_rating_nonempty [OF ne])
next
  assume ne: "book_reviews s b \<noteq> []"
  show "\<bar>average_rating t s b - mean (map review_rating (book_reviews s b))\<bar> \<le> 1 / 200"
    using py_round_near [of t _ 2] by (simp add: average_rating_nonempty [OF ne])
next
  assume r: "map review_rating (book_reviews s b) = [3, 5]"
  then have "book_reviews s b \<noteq> []" by auto
  then show "average_rating t s b = 4"
    by (simp add: average_rating_nonempty r mean_def py_round_def round_nearest_def)
qed

theorem average_rating_mean_rounded_witness:
  "book_reviews sample_store book_2 = [] \<and>
   average_rating ties_down sample_store book_2 = 0 \<and>
   review_count sample_store book_2 = 0 \<and>
   map review_rating (book_reviews sample_store book_1) = [3, 5] \<and>
   book_reviews sample_store book_1 \<noteq> [] \<and>
   average_rating ties_down sample_store book_1 = 4 \<and>
   \<bar>average_rating ties_down sample_store book_1 - mean [3, 5]\<bar> \<le> 1 / 200"
  using average_rating_mean_rounded [of sample_store book_2 ties_down]
    average_rating_mean_rounded [of sample_store book_1 ties_down]
    sample_reviews_1 sample_reviews_2
  by auto

section \<open>Manager methods\<close>

lemma set_all_books: "set (all_books s) = set (books s)"
  by (simp add: all_books_def)

lemma powi_nat: "0 \<le> e \<Longrightarrow> (2::rat) powi e = 2 ^ nat e"
  by (simp add: power_int_def)

lemma floor_log2_ge1:
  assumes "1 \<le> x"
  shows "2 powi floor_log2 x \<le> x \<and> x < 2 powi (floor_log2 x + 1)"
proof -
  let ?f = "\<lfloor>x\<rfloor>"
  have f: "0 < ?f" using assms by simp
  from bitlen_bounds [OF f] have lo: "2 ^ nat (bitlen ?f - 1) \<le> ?f" and hi: "?f < 2 ^ nat (bitlen ?f)"
    by simp_all
  have b: "1 \<le> bitlen ?f" using f by (simp add: bitlen_alt_def)
  have "(2::rat) ^ nat (bitlen ?f - 1) = of_int (2 ^ nat (bitlen ?f - 1))" by simp
  also have "\<dots> \<le> of_int ?f" using lo by (simp only: of_int_le_iff)
  also have "\<dots> \<le> x" by simp
  finally have 1: "(2::rat) ^ nat (bitlen ?f - 1) \<le> x" .
  from hi have "?f + 1 \<le> 2 ^ nat (bitlen ?f)" by simp
  then have "(of_int (?f + 1) :: rat) \<le> of_int (2 ^ nat (bitlen ?f))" by (simp only: of_int_le_iff)
  moreover have "x < of_int (?f + 1)" by linarith
  ultimately have 2: "x < (2::rat) ^ nat (bitlen ?f)" by simp
  show ?thesis
    using 1 2 b assms by (simp add: floor_log2_def powi_nat)
qed

lemma floor_log2_lt1:
  assumes "0 < x" "x < 1"
  shows "2 powi floor_log2 x \<le> x \<and> x < 2 powi (floor_log2 x + 1)"
proof -
  let ?y = "1 / x"
  let ?c = "\<lceil>?y\<rceil>"
  let ?k = "bitlen (?c - 1)"
  have y: "1 < ?y" using assms by simp
  then have c: "0 < ?c - 1" by linarith
  from bitlen_bounds [OF c] have lo: "2 ^ nat (?k - 1) \<le> ?c - 1" and hi: "?c - 1 < 2 ^ nat ?k"
    by simp_all
  have k: "1 \<le> ?k" using c by (simp add: bitlen_alt_def)
  have "?y \<le> of_int ?c" by linarith
  also have "(of_int ?c :: rat) \<le> of_int (2 ^ nat ?k)" using hi by (simp only: of_int_le_iff)
  finally have up: "?y \<le> 2 ^ nat ?k" by simp
  have "(of_int (2 ^ nat (?k - 1)) :: rat) \<le> of_int (?c - 1)" using lo by (simp only: of_int_le_iff)
  moreover have "of_int (?c - 1) < ?y" by linarith
  ultimately have dn: "2 ^ nat (?k - 1) < ?y" by simp
  have 1: "1 / 2 ^ nat ?k \<le> x"
    using up assms by (simp add: field_simps)
  have 2: "x < 1 / 2 ^ nat (?k - 1)"
    using dn assms by (simp add: field_simps)
  have e1: "(2::rat) powi (- ?k) = 1 / 2 ^ nat ?k"
    using k by (simp add: power_int_minus_divide powi_nat)
  have e2: "(2::rat) powi (- ?k + 1) = 1 / 2 ^ nat (?k - 1)"
  proof -
    have "- ?k + 1 = - (?k - 1)" by simp
    then have "(2::rat) powi (- ?k + 1) = 1 / 2 powi (?k - 1)"
      by (simp only: power_int_minus_divide)
    then show ?thesis using k by (simp add: powi_nat)
  qed
  show ?thesis
    using 1 2 assms e1 e2 by (simp add: floor_log2_def)
qed

lemma floor_log2_bounds:
  "0 < x \<Longrightarrow> 2 powi floor_log2 x \<le> x \<and> x < 2 powi (floor_log2 x + 1)"
  using floor_log2_ge1 [of x] floor_log2_lt1 [of x] by (cases "1 \<le> x") auto

text \<open>The double is within a relative error of \<open>2 ^ (- 53)\<close> of the number it stands for.\<close>

lemma to_double_error: "\<bar>to_double x - x\<bar> \<le> \<bar>x\<bar> / 2 ^ 53"
proof (cases "x = 0")
  case True
  then show ?thesis by (simp add: to_double_def)
next
  case False
  define a where "a = \<bar>x\<bar>"
  define e where "e = floor_log2 a - 52"
  define y where "y = a / 2 powi e"
  define m where "m = round_nearest (odd \<lfloor>y\<rfloor>) y"
  have a: "0 < a" using False by (simp add: a_def)
  have p: "(0::rat) < 2 powi e" by (simp add: zero_less_power_int)
  have td: "to_double x = sgn x * of_int m * 2 powi e"
    using False by (simp add: to_double_def Let_def a_def e_def y_def m_def)
  have x: "x = sgn x * a" by (simp add: a_def sgn_mult_abs)
  have "to_double x - x = sgn x * (of_int m * 2 powi e - a)"
    unfolding td by (subst (2) x) (simp add: algebra_simps)
  then have "\<bar>to_double x - x\<bar> = \<bar>of_int m * 2 powi e - a\<bar>"
    using False by (simp add: abs_mult abs_sgn_eq)
  also have "of_int m * 2 powi e - a = (of_int m - y) * 2 powi e"
    using p by (simp add: y_def algebra_simps)
  also have "\<bar>(of_int m - y) * 2 powi e\<bar> = \<bar>of_int m - y\<bar> * 2 powi e"
    using p by (simp add: abs_mult)
  also have "\<dots> \<le> (1 / 2) * 2 powi e"
    using round_nearest_near [of "odd \<lfloor>y\<rfloor>" y] p
    by (intro mult_right_mono) (simp_all add: m_def)
  also have "2 powi e \<le> a / 2 ^ 52"
  proof -
    have "(2::rat) powi floor_log2 a = 2 powi (e + 52)" by (simp add: e_def)
    also have "\<dots> = 2 powi e * 2 ^ 52" by (simp add: power_int_add)
    finally have "2 powi e * 2 ^ 52 \<le> a" using floor_log2_bounds [OF a] by simp
    then show ?thesis by (simp add: field_simps)
  qed
  finally show ?thesis by (simp add: a_def)
qed

lemma highly_rated_filter:
  "highly_rated s m =
   filter (\<lambda>b. book_reviews s b \<noteq> [] \<and>
               m \<le> to_double (mean (map review_rating (book_reviews s b))))
     (sort_key book_id (books s))"
proof -
  have "gte (map_option to_double (Avg (map review_rating (book_reviews s b)))) m \<longleftrightarrow>
        book_reviews s b \<noteq> [] \<and> m \<le> to_double (mean (map review_rating (book_reviews s b)))"
    for b
    by (simp add: gte_def Avg_def mean_def)
  then show ?thesis
    by (simp add: highly_rated_def annotate_avg_rating_def filter_map o_def)
qed

lemma sample_reviews_rounding:
  "map review_rating (book_reviews rounding_store book_2) = [1, 2, 2]"
  by code_simp

text \<open>
  C2, as the code has it.  For every \<open>min_rating\<close> and every store, \<open>highly_rated\<close>
  returns exactly the books that have at least one review and whose mean rating as the
  database computes it, the double nearest to the mean and not rounded to two decimals,
  is at least \<open>min_rating\<close>.  That double is within a relative error of \<open>2 ^ (- 53)\<close> of
  the exact mean, which bounds the result from both sides.  A book without reviews is
  never returned, whatever \<open>min_rating\<close> is.
\<close>

theorem highly_rated_raw_mean:
  "(b \<in> set (highly_rated s m) \<longleftrightarrow>
      b \<in> set (books s) \<and> 0 < review_count s b \<and>
      m \<le> to_double (mean (map review_rating (book_reviews s b)))) \<and>
   (review_count s b = 0 \<longrightarrow> b \<notin> set (highly_rated s m)) \<and>
   (b \<in> set (highly_rated s m) \<longrightarrow>
      m \<le> mean (map review_rating (book_reviews s b))
            + \<bar>mean (map review_rating (book_reviews s b))\<bar> / 2 ^ 53) \<and>
   (b \<in> set (books s) \<and> 0 < review_count s b \<and>
    m \<le> mean (map review_rating (book_reviews s b))
          - \<bar>mean (map review_rating (book_reviews s b))\<bar> / 2 ^ 53
    \<longrightarrow> b \<in> set (highly_rated s m))"
proof -
  let ?x = "mean (map review_rating (book_reviews s b))"
  have iff: "b \<in> set (highly_rated s m) \<longleftrightarrow>
      b \<in> set (books s) \<and> 0 < review_count s b \<and> m \<le> to_double ?x"
    by (auto simp: highly_rated_filter review_count_def)
  have err: "\<bar>to_double ?x - ?x\<bar> \<le> \<bar>?x\<bar> / 2 ^ 53"
    by (rule to_double_error)
  have up: "m \<le> ?x + \<bar>?x\<bar> / 2 ^ 53" if "m \<le> to_double ?x"
    using that err by linarith
  have dn: "m \<le> to_double ?x" if "m \<le> ?x - \<bar>?x\<bar> / 2 ^ 53"
    using that err by linarith
  show ?thesis
    using iff up dn by auto
qed

theorem highly_rated_raw_mean_witness:
  "review_count sample_store book_2 = 0 \<and>
   book_2 \<notin> set (highly_rated sample_store (- 1)) \<and>
   book_1 \<in> set (highly_rated sample_store 4) \<and>
   map review_rating (book_reviews rounding_store book_2) = [1, 2, 2] \<and>
   book_2 \<in> set (highly_rated rounding_store (7505999378950827 / 4503599627370496)) \<and>
   map book_id (highly_rated sample_store 3) = [1, 3]"
proof -
  have m: "to_double (mean (map review_rating (book_reviews sample_store book_1))) = 4"
    unfolding sample_reviews_1 by code_simp
  have c: "0 < review_count sample_store book_1"
    using sample_reviews_1 by (auto simp: review_count_def)
  have b: "book_1 \<in> set (books sample_store)"
    by (simp add: sample_store_def)
  have z: "review_count sample_store book_2 = 0"
    by (simp add: review_count_def sample_reviews_2)
  have m2: "to_double (mean (map review_rating (book_reviews rounding_store book_2)))
            = 7505999378950827 / 4503599627370496"
    unfolding sample_reviews_rounding by code_simp
  have c2: "0 < review_count rounding_store book_2"
    using sample_reviews_rounding by (auto simp: review_count_def)
  have b2: "book_2 \<in> set (books rounding_store)"
    by (simp add: rounding_store_def sample_store_def)
  have o: "map book_id (highly_rated sample_store 3) = [1, 3]"
    by code_simp
  have r1: "book_2 \<notin> set (highly_rated sample_store (- 1))"
    using highly_rated_raw_mean [of book_2 sample_store "- 1"] z by simp
  have r2: "book_1 \<in> set (highly_rated sample_store 4)"
    using highly_rated_raw_mean [of book_1 sample_store 4] m c b by simp
  have r3: "book_2 \<in> set (highly_rated rounding_store (7505999378950827 / 4503599627370496))"
    using highly_rated_raw_mean
      [of book_2 rounding_store "7505999378950827 / 4503599627370496"] m2 c2 b2
    by simp
  show ?thesis using z r1 r2 r3 o sample_reviews_rounding by blast
qed

text \<open>
  The statement of C2 with the average "computed the same way as \<open>average_rating\<close>"
  fails: book 3 of the sample store has the ratings 3, 4 and 4, so its
  \<open>average_rating\<close> is 3.67, which is at least the double 3.67, and yet \<open>highly_rated\<close>
  with that double as \<open>min_rating\<close> does not return the book, because the double mean
  3.6666666666666665 is below it.
\<close>

theorem highly_rated_counterexample:
  "book_3 \<in> set (books sample_store) \<and>
   0 < review_count sample_store book_3 \<and>
   to_double (367 / 100) = 2066026329056215 / 562949953421312 \<and>
   average_rating ties_down sample_store book_3 = 367 / 100 \<and>
   2066026329056215 / 562949953421312 \<le> average_rating ties_down sample_store book_3 \<and>
   book_3 \<notin> set (highly_rated sample_store (2066026329056215 / 562949953421312))"
proof -
  have ne: "book_reviews sample_store book_3 \<noteq> []"
    using sample_reviews_3 by auto
  have m: "mean (map review_rating (book_reviews sample_store book_3)) = 11 / 3"
    unfolding sample_reviews_3 by (simp add: mean_def)
  have a: "average_rating ties_down sample_store book_3 = 367 / 100"
    unfolding average_rating_nonempty [OF ne] m
    by (simp add: py_round_def round_nearest_def floor_rat_numeral)
  have b: "book_3 \<in> set (books sample_store)"
    by (simp add: sample_store_def)
  have c: "0 < review_count sample_store book_3"
    using ne by (simp add: review_count_def)
  have t: "to_double (367 / 100) = 2066026329056215 / 562949953421312"
    by code_simp
  have t': "to_double (11 / 3) = 8256599316845909 / 2251799813685248"
    by code_simp
  have d: "book_3 \<notin> set (highly_rated sample_store (2066026329056215 / 562949953421312))"
    unfolding highly_rated_filter set_filter mem_Collect_eq m t' by simp
  have le: "(2066026329056215 / 562949953421312 :: rat) \<le> 367 / 100" by simp
  show ?thesis using a b c d t le by simp
qed

text \<open>
  C10.  \<open>published\<close> applies no filter: for every store its result is the whole book
  collection, each book once, in the order of \<open>Book.objects.all()\<close>.
\<close>

theorem published_is_all_books:
  "published s = all_books s \<and> mset (published s) = mset (books s) \<and>
   set (published s) = set (books s) \<and> length (published s) = length (books s)"
  by (simp add: published_def all_books_def)

section \<open>Looking a row up\<close>

lemma get_object_or_404_Inr:
  "get_object_or_404 table cond = Inr x \<Longrightarrow> x \<in> set table \<and> cond x"
proof -
  assume a: "get_object_or_404 table cond = Inr x"
  then have "filter cond table = [x]"
    by (auto simp: get_object_or_404_def split: list.splits)
  then have "x \<in> set (filter cond table)" by simp
  then show ?thesis by simp
qed

lemma filter_key_unique:
  "distinct (map f xs) \<Longrightarrow> x \<in> set xs \<Longrightarrow> filter (\<lambda>y. f y = f x) xs = [x]"
proof (induction xs)
  case Nil
  then show ?case by simp
next
  case (Cons a xs)
  show ?case
  proof (cases "a = x")
    case True
    have "f x \<notin> f ` set xs" using Cons.prems True by simp
    then have "\<forall>y \<in> set xs. f y \<noteq> f x" by (metis imageI)
    then have "filter (\<lambda>y. f y = f x) xs = []" by (simp add: filter_empty_conv)
    then show ?thesis using True by simp
  next
    case False
    then have "x \<in> set xs" using Cons.prems by simp
    moreover have "f a \<notin> f ` set xs" using Cons.prems by simp
    then have "f a \<noteq> f x" using \<open>x \<in> set xs\<close> by (metis imageI)
    ultimately show ?thesis using Cons by simp
  qed
qed

section \<open>Saving a review\<close>

lemma review_save_exists:
  "\<exists>r \<in> set (reviews s). review_book r = b \<and> review_user r = u \<Longrightarrow>
   review_save s b u rating text now = Inl IntegrityError"
  by (simp add: review_save_def)

lemma review_save_Inr:
  "review_save s b u rating text now = Inr s' \<Longrightarrow>
   (\<forall>r \<in> set (reviews s). \<not> (review_book r = b \<and> review_user r = u)) \<and>
   s' = s\<lparr>reviews := reviews s @
                    [\<lparr>review_id = next_review_id s, review_book = b, review_user = u,
                      review_rating = rating, review_text = text,
                      review_created_at = now, review_updated_at = now\<rparr>],
                  next_review_id := Suc (next_review_id s)\<rparr>"
  by (auto simp: review_save_def split: if_splits)

text \<open>Either \<open>add_review\<close> leaves the store as it is, or it saved the review.\<close>

lemma add_review_cases:
  "snd (add_review s request bid) = s \<or>
   (\<exists>user book rating text.
      request_user s request = Some user \<and>
      get_object_or_404 (books s) (\<lambda>b. book_id b = bid) = Inr book \<and>
      ReviewForm request = Some (rating, text) \<and>
      review_save s (book_id book) user rating text (req_time request)
        = Inr (snd (add_review s request bid)))"
  by (auto simp: add_review_def split: option.splits sum.splits)

lemma unique_together_review_save:
  "unique_together s \<Longrightarrow> review_save s b u rating text now = Inr s' \<Longrightarrow> unique_together s'"
  by (drule review_save_Inr) (auto simp: unique_together_def)

lemma unique_together_add_review:
  "unique_together s \<Longrightarrow> unique_together (snd (add_review s request bid))"
  using add_review_cases [of s request bid] unique_together_review_save by metis

lemma request_user_in_users: "request_user s request = Some u \<Longrightarrow> u \<in> set (users s)"
  by (auto simp: request_user_def split: option.splits if_splits)

lemma fk_ok_review_save:
  "fk_ok s \<Longrightarrow> b \<in> book_id ` set (books s) \<Longrightarrow> u \<in> set (users s) \<Longrightarrow>
   review_save s b u rating text now = Inr s' \<Longrightarrow> fk_ok s'"
  by (drule review_save_Inr) (auto simp: fk_ok_def)

lemma fk_ok_add_review: "fk_ok s \<Longrightarrow> fk_ok (snd (add_review s request bid))"
  by (auto simp: add_review_def split: option.splits sum.splits if_splits
      dest!: get_object_or_404_Inr request_user_in_users intro: fk_ok_review_save)

lemma books_add_other:
  "users (books_add s lid b) = users s" "authors (books_add s lid b) = authors s"
  "books (books_add s lid b) = books s" "reviews (books_add s lid b) = reviews s"
  by (simp_all add: books_add_def)

lemma books_add_lists:
  assumes "l' \<in> set (reading_lists (books_add s lid b))"
  shows "\<exists>l \<in> set (reading_lists s). rl_user l' = rl_user l \<and> rl_id l' = rl_id l \<and>
           set (rl_books l') \<subseteq> insert b (set (rl_books l))"
proof -
  from assms obtain l where l: "l \<in> set (reading_lists s)" and
    e: "l' = (if rl_id l = lid
              then l\<lparr>rl_books := (if b \<in> set (rl_books l) then rl_books l
                                    else rl_books l @ [b])\<rparr>
              else l)"
    by (auto simp: books_add_def)
  have "rl_user l' = rl_user l \<and> rl_id l' = rl_id l \<and>
        set (rl_books l') \<subseteq> insert b (set (rl_books l))"
    unfolding e by auto
  with l show ?thesis by blast
qed

lemma fk_ok_books_add:
  assumes ok: "fk_ok s" and b: "b \<in> book_id ` set (books s)"
  shows "fk_ok (books_add s lid b)"
proof -
  have "rl_user l' \<in> set (users s) \<and> set (rl_books l') \<subseteq> book_id ` set (books s)"
    if "l' \<in> set (reading_lists (books_add s lid b))" for l'
  proof -
    from books_add_lists [OF that] obtain l where
      l: "l \<in> set (reading_lists s)" and u: "rl_user l' = rl_user l" and
      sub: "set (rl_books l') \<subseteq> insert b (set (rl_books l))"
      by blast
    from ok l have "rl_user l \<in> set (users s)" "set (rl_books l) \<subseteq> book_id ` set (books s)"
      by (simp_all add: fk_ok_def)
    with u sub b show ?thesis by auto
  qed
  then show ?thesis
    using ok by (simp add: fk_ok_def books_add_other)
qed

lemma fk_ok_reading_list_create:
  "fk_ok s \<Longrightarrow> u \<in> set (users s) \<Longrightarrow> fk_ok (snd (reading_list_create s name u now))"
  by (auto simp: fk_ok_def reading_list_create_def Let_def)

lemma books_reading_list_create:
  "books (snd (reading_list_create s name u now)) = books s"
  by (simp add: reading_list_create_def Let_def)

lemma fk_ok_books_add_create:
  "fk_ok s \<Longrightarrow> b \<in> book_id ` set (books s) \<Longrightarrow> u \<in> set (users s) \<Longrightarrow>
   reading_list_create s name u now = (l, s') \<Longrightarrow> fk_ok (books_add s' lid b)"
proof -
  assume ok: "fk_ok s" and b: "b \<in> book_id ` set (books s)" and u: "u \<in> set (users s)"
    and c: "reading_list_create s name u now = (l, s')"
  have "fk_ok s'" using fk_ok_reading_list_create [OF ok u, of name now] c by simp
  moreover have "books s' = books s" using books_reading_list_create [of s name u now] c by simp
  ultimately show ?thesis using b by (intro fk_ok_books_add) simp_all
qed

lemma fk_ok_add_to_reading_list:
  "fk_ok s \<Longrightarrow> fk_ok (snd (add_to_reading_list s request bid))"
  by (auto simp: add_to_reading_list_def
      split: option.splits sum.splits if_splits post_pk.splits prod.splits
      dest!: get_object_or_404_Inr request_user_in_users
      intro: fk_ok_books_add fk_ok_books_add_create)

lemma delete_books_where_simps:
  "books (delete_books_where s doomed) = filter (\<lambda>b. \<not> doomed b) (books s)"
  "authors (delete_books_where s doomed) = authors s"
  "users (delete_books_where s doomed) = users s"
  "reviews (delete_books_where s doomed) =
     filter (\<lambda>r. review_book r \<notin> book_id ` {b \<in> set (books s). doomed b}) (reviews s)"
  "reading_lists (delete_books_where s doomed) =
     map (\<lambda>l. l\<lparr>rl_books := filter (\<lambda>b. b \<notin> book_id ` {b \<in> set (books s). doomed b})
                                 (rl_books l)\<rparr>) (reading_lists s)"
  by (simp_all add: delete_books_where_def Let_def)

lemma fk_ok_delete_books_where:
  assumes ok: "fk_ok s"
  shows "fk_ok (delete_books_where s doomed)"
proof -
  let ?gone = "book_id ` {b \<in> set (books s). doomed b}"
  have keep: "x \<in> book_id ` set (filter (\<lambda>b. \<not> doomed b) (books s))"
    if "x \<in> book_id ` set (books s)" "x \<notin> ?gone" for x
    using that by auto
  have a: "\<forall>b \<in> set (books (delete_books_where s doomed)).
             book_author b \<in> author_id ` set (authors (delete_books_where s doomed))"
    using ok by (simp add: fk_ok_def delete_books_where_simps)
  have r: "\<forall>r \<in> set (reviews (delete_books_where s doomed)).
             review_book r \<in> book_id ` set (books (delete_books_where s doomed)) \<and>
             review_user r \<in> set (users (delete_books_where s doomed))"
    using ok keep by (simp add: fk_ok_def delete_books_where_simps)
  have l: "\<forall>l \<in> set (reading_lists (delete_books_where s doomed)).
             rl_user l \<in> set (users (delete_books_where s doomed)) \<and>
             set (rl_books l) \<subseteq> book_id ` set (books (delete_books_where s doomed))"
  proof
    fix l' assume "l' \<in> set (reading_lists (delete_books_where s doomed))"
    then obtain l where l: "l \<in> set (reading_lists s)" and
      e: "l' = l\<lparr>rl_books := filter (\<lambda>b. b \<notin> ?gone) (rl_books l)\<rparr>"
      by (auto simp: delete_books_where_simps)
    from ok l have "rl_user l \<in> set (users s)" "set (rl_books l) \<subseteq> book_id ` set (books s)"
      by (simp_all add: fk_ok_def)
    then show "rl_user l' \<in> set (users (delete_books_where s doomed)) \<and>
             set (rl_books l') \<subseteq> book_id ` set (books (delete_books_where s doomed))"
      unfolding e using keep by (auto simp: delete_books_where_simps(1,3))
  qed
  from a r l show ?thesis unfolding fk_ok_def by blast
qed

lemma fk_ok_delete_book: "fk_ok s \<Longrightarrow> fk_ok (delete_book s bid)"
  by (simp add: delete_book_def fk_ok_delete_books_where)

lemma fk_ok_delete_author:
  assumes "fk_ok s"
  shows "fk_ok (delete_author s aid)"
proof -
  let ?s = "delete_books_where s (\<lambda>b. book_author b = aid)"
  have ok: "fk_ok ?s" using assms by (rule fk_ok_delete_books_where)
  have "book_author b \<in> author_id ` set (filter (\<lambda>a. author_id a \<noteq> aid) (authors ?s))"
    if "b \<in> set (books ?s)" for b
  proof -
    from that have "book_author b \<noteq> aid" by (simp add: delete_books_where_simps)
    moreover from ok that have "book_author b \<in> author_id ` set (authors ?s)"
      by (simp add: fk_ok_def)
    ultimately show ?thesis by auto
  qed
  then show ?thesis
    using ok by (simp add: delete_author_def Let_def fk_ok_def)
qed

lemma fk_ok_delete_user: "fk_ok s \<Longrightarrow> fk_ok (delete_user s uid)"
  by (auto simp: fk_ok_def delete_user_def)

lemma fk_ok_delete_review: "fk_ok s \<Longrightarrow> fk_ok (delete_review s rid)"
  by (auto simp: fk_ok_def delete_review_def)

lemma fk_ok_delete_reading_list: "fk_ok s \<Longrightarrow> fk_ok (delete_reading_list s lid)"
  by (auto simp: fk_ok_def delete_reading_list_def)

lemma fk_ok_author_save: "fk_ok s \<Longrightarrow> fk_ok (author_save s a)"
  by (auto simp: fk_ok_def author_save_def)

lemma fk_ok_book_save: "fk_ok s \<Longrightarrow> fk_ok (saved s (book_save s b now))"
  by (auto simp: fk_ok_def book_save_def saved_def)

lemma fk_ok_books_set: "fk_ok s \<Longrightarrow> fk_ok (saved s (books_set s lid bids))"
proof (cases "\<exists>b \<in> set bids. b \<notin> book_id ` set (books s)")
  case True
  assume "fk_ok s"
  with True show ?thesis by (simp add: books_set_def saved_def)
next
  case False
  assume ok: "fk_ok s"
  let ?s' = "s\<lparr>reading_lists :=
                 map (\<lambda>l. if rl_id l = lid then l\<lparr>rl_books := remdups bids\<rparr> else l)
                     (reading_lists s)\<rparr>"
  have "rl_user l' \<in> set (users s) \<and> set (rl_books l') \<subseteq> book_id ` set (books s)"
    if "l' \<in> set (reading_lists ?s')" for l'
  proof -
    from that obtain l where l: "l \<in> set (reading_lists s)" and
      e: "l' = (if rl_id l = lid then l\<lparr>rl_books := remdups bids\<rparr> else l)"
      by auto
    from ok l have "rl_user l \<in> set (users s)" "set (rl_books l) \<subseteq> book_id ` set (books s)"
      by (simp_all add: fk_ok_def)
    with False show ?thesis unfolding e by auto
  qed
  then have "fk_ok ?s'" using ok by (simp add: fk_ok_def)
  with False show ?thesis by (simp add: books_set_def saved_def)
qed

lemma fk_ok_reading_list_save:
  assumes ok: "fk_ok s" and sv: "reading_list_save s l now = Inr s'"
  shows "fk_ok s'"
proof -
  from sv have u: "rl_user l \<in> set (users s)" and
    e: "s' = s\<lparr>reading_lists := reading_lists s @
                 [l\<lparr>rl_id := next_reading_list_id s, rl_books := [],
                    rl_created_at := now\<rparr>],
               next_reading_list_id := Suc (next_reading_list_id s)\<rparr>"
    by (auto simp: reading_list_save_def split: if_splits)
  show ?thesis
    unfolding e using ok u by (simp add: fk_ok_def)
qed

lemma fk_ok_reading_list_save_with_books:
  "fk_ok s \<Longrightarrow> fk_ok (reading_list_save_with_books s l now)"
  by (auto simp: reading_list_save_with_books_def split: sum.splits
      intro: fk_ok_books_set fk_ok_reading_list_save)

lemma fk_ok_perform: "fk_ok s \<Longrightarrow> fk_ok (perform s op)"
  by (cases op)
    (simp_all add: fk_ok_add_review fk_ok_add_to_reading_list fk_ok_author_save
      fk_ok_book_save fk_ok_reading_list_save_with_books fk_ok_delete_author
      fk_ok_delete_book fk_ok_delete_user fk_ok_delete_review fk_ok_delete_reading_list)

section \<open>The reviews after each operation\<close>

lemma reviews_add_to_reading_list:
  "reviews (snd (add_to_reading_list s request bid)) = reviews s"
  by (auto simp: add_to_reading_list_def books_add_other reading_list_create_def Let_def
      split: option.splits sum.splits if_splits post_pk.splits prod.splits)

lemma reviews_perform_save:
  "reviews (author_save s a) = reviews s"
  "reviews (saved s (book_save s b now)) = reviews s"
  "reviews (reading_list_save_with_books s l now) = reviews s"
  by (simp_all add: author_save_def book_save_def reading_list_save_def saved_def
      reading_list_save_with_books_def books_set_def)

text \<open>Only \<open>add_review\<close> adds a review; every other operation keeps some of them.\<close>

lemma reviews_perform:
  "(\<exists>request bid. op = Add_review request bid) \<or>
   (\<exists>P. reviews (perform s op) = filter P (reviews s))"
proof (cases op)
  case (Add_review request bid)
  then show ?thesis by blast
next
  case (Add_to_reading_list request bid)
  have "reviews (perform s op) = filter (\<lambda>_. True) (reviews s)"
    using Add_to_reading_list by (simp add: reviews_add_to_reading_list)
  then show ?thesis by blast
next
  case (Save_author a)
  have "reviews (perform s op) = filter (\<lambda>_. True) (reviews s)"
    using Save_author by (simp add: reviews_perform_save)
  then show ?thesis by blast
next
  case (Save_book b now)
  have "reviews (perform s op) = filter (\<lambda>_. True) (reviews s)"
    using Save_book by (simp add: reviews_perform_save)
  then show ?thesis by blast
next
  case (Save_reading_list l now)
  have "reviews (perform s op) = filter (\<lambda>_. True) (reviews s)"
    using Save_reading_list by (simp add: reviews_perform_save)
  then show ?thesis by blast
next
  case (Delete_author aid)
  have "reviews (perform s op)
        = filter (\<lambda>r. review_book r \<notin> book_id ` {b \<in> set (books s). book_author b = aid})
            (reviews s)"
    using Delete_author by (simp add: delete_author_def Let_def delete_books_where_simps)
  then show ?thesis by blast
next
  case (Delete_book bid)
  have "reviews (perform s op)
        = filter (\<lambda>r. review_book r \<notin> book_id ` {b \<in> set (books s). book_id b = bid})
            (reviews s)"
    using Delete_book by (simp add: delete_book_def delete_books_where_simps)
  then show ?thesis by blast
next
  case (Delete_user uid)
  have "reviews (perform s op) = filter (\<lambda>r. review_user r \<noteq> uid) (reviews s)"
    using Delete_user by (simp add: delete_user_def)
  then show ?thesis by blast
next
  case (Delete_review rid)
  have "reviews (perform s op) = filter (\<lambda>r. review_id r \<noteq> rid) (reviews s)"
    using Delete_review by (simp add: delete_review_def)
  then show ?thesis by blast
next
  case (Delete_reading_list lid)
  have "reviews (perform s op) = filter (\<lambda>_. True) (reviews s)"
    using Delete_reading_list by (simp add: delete_reading_list_def)
  then show ?thesis by blast
qed

lemma unique_together_perform:
  assumes "unique_together s"
  shows "unique_together (perform s op)"
  using reviews_perform [of op s]
proof
  assume "\<exists>request bid. op = Add_review request bid"
  with assms show ?thesis by (auto simp: unique_together_add_review)
next
  assume "\<exists>P. reviews (perform s op) = filter P (reviews s)"
  with assms show ?thesis by (auto simp: unique_together_def distinct_map_filter)
qed

section \<open>The keys of the reading lists\<close>

text \<open>\<open>pk_ok\<close> is kept by every operation.\<close>

lemma pk_ok_ids:
  "pk_ok s \<longleftrightarrow>
     distinct (map rl_id (reading_lists s)) \<and>
     (\<forall>i \<in> set (map rl_id (reading_lists s)). i < next_reading_list_id s)"
  by (simp add: pk_ok_def)

lemma pk_ok_same:
  "map rl_id (reading_lists s') = map rl_id (reading_lists s) \<Longrightarrow>
   next_reading_list_id s' = next_reading_list_id s \<Longrightarrow> pk_ok s \<Longrightarrow> pk_ok s'"
  unfolding pk_ok_ids by simp

lemma pk_ok_filter:
  "reading_lists s' = filter P (reading_lists s) \<Longrightarrow>
   next_reading_list_id s' = next_reading_list_id s \<Longrightarrow> pk_ok s \<Longrightarrow> pk_ok s'"
  by (simp add: pk_ok_def distinct_map_filter)

lemma pk_ok_append:
  assumes "pk_ok s"
  shows "pk_ok (s\<lparr>reading_lists := reading_lists s @ [l\<lparr>rl_id := next_reading_list_id s\<rparr>],
                  next_reading_list_id := Suc (next_reading_list_id s)\<rparr>)"
  using assms by (auto simp: pk_ok_def less_Suc_eq)

lemma books_add_ids:
  "map rl_id (reading_lists (books_add s lid b)) = map rl_id (reading_lists s)"
  "next_reading_list_id (books_add s lid b) = next_reading_list_id s"
  by (simp_all add: books_add_def o_def if_distrib [of rl_id] cong: if_cong)

lemma pk_ok_books_add: "pk_ok s \<Longrightarrow> pk_ok (books_add s lid b)"
  by (rule pk_ok_same [OF books_add_ids])

lemma pk_ok_add_review: "pk_ok s \<Longrightarrow> pk_ok (snd (add_review s request bid))"
  by (auto simp: add_review_def review_save_def pk_ok_def
      split: option.splits sum.splits if_splits)

lemma pk_ok_reading_list_create:
  "pk_ok s \<Longrightarrow> pk_ok (snd (reading_list_create s name u now))"
  using pk_ok_append [of s "\<lparr>rl_id = 0, rl_name = name, rl_user = u,
               rl_books = [], rl_description = [], rl_is_public = True,
               rl_created_at = now\<rparr>"]
  by (simp add: reading_list_create_def Let_def)

lemma pk_ok_add_to_reading_list:
  "pk_ok s \<Longrightarrow> pk_ok (snd (add_to_reading_list s request bid))"
proof -
  assume ok: "pk_ok s"
  have "pk_ok (books_add s' lid b)" if "reading_list_create s name u now = (l, s')"
    for name u now l s' lid b
    using pk_ok_reading_list_create [OF ok, of name u now] that
    by (auto intro: pk_ok_books_add)
  with ok show ?thesis
    by (auto simp: add_to_reading_list_def
        split: option.splits sum.splits if_splits post_pk.splits prod.splits
        intro: pk_ok_books_add)
qed

lemma pk_ok_saves:
  "pk_ok s \<Longrightarrow> pk_ok (author_save s a)"
  "pk_ok s \<Longrightarrow> pk_ok (saved s (book_save s b now))"
  by (auto simp: pk_ok_def author_save_def book_save_def saved_def)

lemma pk_ok_books_set: "pk_ok s \<Longrightarrow> pk_ok (saved s (books_set s lid bids))"
proof -
  assume ok: "pk_ok s"
  have "pk_ok s'" if "books_set s lid bids = Inr s'" for s'
  proof (rule pk_ok_same [OF _ _ ok])
    from that show "map rl_id (reading_lists s') = map rl_id (reading_lists s)"
      by (auto simp: books_set_def o_def if_distrib [of rl_id] split: if_splits cong: if_cong)
    from that show "next_reading_list_id s' = next_reading_list_id s"
      by (auto simp: books_set_def split: if_splits)
  qed
  with ok show ?thesis by (auto simp: saved_def split: sum.splits)
qed

lemma pk_ok_reading_list_save:
  "pk_ok s \<Longrightarrow> reading_list_save s l now = Inr s' \<Longrightarrow> pk_ok s'"
proof -
  assume ok: "pk_ok s" and sv: "reading_list_save s l now = Inr s'"
  from sv have e: "s' = s\<lparr>reading_lists := reading_lists s @
                 [l\<lparr>rl_id := next_reading_list_id s, rl_books := [],
                    rl_created_at := now\<rparr>],
               next_reading_list_id := Suc (next_reading_list_id s)\<rparr>"
    by (auto simp: reading_list_save_def split: if_splits)
  from ok have "next_reading_list_id s \<notin> rl_id ` set (reading_lists s)"
    by (auto simp: pk_ok_def)
  with ok show ?thesis
    unfolding e by (simp add: pk_ok_def less_Suc_eq)
qed

lemma pk_ok_reading_list_save_with_books:
  "pk_ok s \<Longrightarrow> pk_ok (reading_list_save_with_books s l now)"
  by (auto simp: reading_list_save_with_books_def split: sum.splits
      intro: pk_ok_books_set pk_ok_reading_list_save)

lemma pk_ok_deletes:
  "pk_ok s \<Longrightarrow> pk_ok (delete_books_where s doomed)"
  "pk_ok s \<Longrightarrow> pk_ok (delete_user s uid)"
  "pk_ok s \<Longrightarrow> pk_ok (delete_review s rid)"
  "pk_ok s \<Longrightarrow> pk_ok (delete_reading_list s lid)"
proof -
  assume ok: "pk_ok s"
  show "pk_ok (delete_books_where s doomed)"
    by (rule pk_ok_same [OF _ _ ok]) (simp_all add: delete_books_where_def Let_def o_def)
  show "pk_ok (delete_user s uid)"
    by (rule pk_ok_filter [OF _ _ ok]) (simp_all add: delete_user_def)
  show "pk_ok (delete_review s rid)"
    by (rule pk_ok_same [OF _ _ ok]) (simp_all add: delete_review_def)
  show "pk_ok (delete_reading_list s lid)"
    by (rule pk_ok_filter [OF _ _ ok]) (simp_all add: delete_reading_list_def)
qed

lemma pk_ok_delete_author: "pk_ok s \<Longrightarrow> pk_ok (delete_author s aid)"
proof -
  assume "pk_ok s"
  then have "pk_ok (delete_books_where s (\<lambda>b. book_author b = aid))"
    by (rule pk_ok_deletes)
  then show ?thesis
    by (simp add: delete_author_def Let_def pk_ok_def)
qed

lemma pk_ok_perform: "pk_ok s \<Longrightarrow> pk_ok (perform s op)"
  by (cases op)
    (simp_all add: pk_ok_add_review pk_ok_add_to_reading_list pk_ok_saves
      pk_ok_reading_list_save_with_books pk_ok_deletes pk_ok_delete_author delete_book_def)

section \<open>One review for each book and user\<close>

lemma sample_facts:
  "request_user sample_store sample_request = Some 1"
  "get_object_or_404 (books sample_store) (\<lambda>b. book_id b = 1) = Inr book_1"
  "get_object_or_404 (books sample_store) (\<lambda>b. book_id b = 2) = Inr book_2"
  "req_method sample_request = POST"
  "ReviewForm sample_request = Some (4, ''A good read.'')"
  "unique_together sample_store"
  "fk_ok sample_store"
  "ratings_valid sample_store"
  by code_simp+

text \<open>
  C3.  No operation produces a second review for a (book, user) pair: \<open>unique_together\<close>
  is kept by every operation.  A valid second submission by a user who has already
  reviewed the book fails with \<open>IntegrityError\<close>, the uniqueness violation of the store,
  and the store, with the first review in it, is what it was; whatever the request, the
  store is not changed for such a user.
\<close>

theorem second_review_rejected:
  "(unique_together s \<longrightarrow> unique_together (perform s op)) \<and>
   (request_user s request = Some u \<and>
    get_object_or_404 (books s) (\<lambda>b. book_id b = bid) = Inr bk \<and>
    req_method request = POST \<and>
    ReviewForm request = Some (rating, rtext) \<and>
    (\<exists>r \<in> set (reviews s). review_book r = bid \<and> review_user r = u)
    \<longrightarrow> add_review s request bid = (Inl IntegrityError, s)) \<and>
   (request_user s request = Some u \<and>
    (\<exists>r \<in> set (reviews s). review_book r = bid \<and> review_user r = u)
    \<longrightarrow> snd (add_review s request bid) = s)"
proof (intro conjI impI)
  assume "unique_together s"
  then show "unique_together (perform s op)" by (rule unique_together_perform)
next
  assume a: "request_user s request = Some u \<and>
    get_object_or_404 (books s) (\<lambda>b. book_id b = bid) = Inr bk \<and>
    req_method request = POST \<and>
    ReviewForm request = Some (rating, rtext) \<and>
    (\<exists>r \<in> set (reviews s). review_book r = bid \<and> review_user r = u)"
  then have "book_id bk = bid" using get_object_or_404_Inr [of "books s" "\<lambda>b. book_id b = bid" bk] by simp
  with a have "review_save s (book_id bk) u rating rtext (req_time request) = Inl IntegrityError"
    by (intro review_save_exists) simp
  with a show "add_review s request bid = (Inl IntegrityError, s)"
    by (simp add: add_review_def)
next
  assume a: "request_user s request = Some u \<and>
    (\<exists>r \<in> set (reviews s). review_book r = bid \<and> review_user r = u)"
  have "review_save s (book_id bk) u rating rtext now = Inl IntegrityError"
    if "get_object_or_404 (books s) (\<lambda>b. book_id b = bid) = Inr bk" for bk rating rtext now
  proof -
    from that have "book_id bk = bid" using get_object_or_404_Inr [of "books s" "\<lambda>b. book_id b = bid" bk] by simp
    with a show ?thesis by (intro review_save_exists) simp
  qed
  with a show "snd (add_review s request bid) = s"
    by (auto simp: add_review_def split: option.splits sum.splits)
qed

theorem second_review_rejected_witness:
  "unique_together sample_store \<and>
   unique_together (perform sample_store (Add_review sample_request 1)) \<and>
   (\<exists>r \<in> set (reviews sample_store). review_book r = 1 \<and> review_user r = 1) \<and>
   add_review sample_store sample_request 1 = (Inl IntegrityError, sample_store) \<and>
   snd (add_review sample_store sample_request 1) = sample_store"
proof -
  have e: "\<exists>r \<in> set (reviews sample_store). review_book r = 1 \<and> review_user r = 1"
    by code_simp
  show ?thesis
    using second_review_rejected
      [of sample_store "Add_review sample_request 1" sample_request 1 1 book_1 4 "''A good read.''"]
      sample_facts e
    by simp
qed

section \<open>Listing the reading lists\<close>

text \<open>
  C4.  Listing the reading lists as user \<open>a\<close> returns exactly the lists that \<open>a\<close>
  owns: a list owned by another user \<open>b\<close> is never returned, whatever its
  \<open>is_public\<close> flag says, and the view renders that list of the session's user.
\<close>

theorem reading_lists_owner_only:
  "(l \<in> set (get_queryset s a) \<longleftrightarrow> l \<in> set (reading_lists s) \<and> rl_user l = a) \<and>
   (a \<noteq> b \<and> rl_user l = b \<longrightarrow> l \<notin> set (get_queryset s a)) \<and>
   (ReadingListView s request = Render_reading_list ls \<longrightarrow>
      (\<exists>u. request_user s request = Some u \<and> ls = get_queryset s u \<and>
           (\<forall>x \<in> set ls. rl_user x = u)))"
  by (auto simp: get_queryset_def ReadingListView_def split: option.splits)

theorem reading_lists_owner_only_witness:
  "rl_user list_2 = 2 \<and> rl_is_public list_2 \<and>
   list_2 \<in> set (reading_lists sample_store) \<and>
   list_2 \<notin> set (get_queryset sample_store 1) \<and>
   ReadingListView sample_store get_request = Render_reading_list [list_1] \<and>
   req_method get_request = GET \<and>
   request_user sample_store get_request = Some 1 \<and>
   [list_1] = get_queryset sample_store 1"
proof -
  have v: "ReadingListView sample_store get_request = Render_reading_list [list_1]"
    by code_simp
  have m: "list_2 \<in> set (reading_lists sample_store)"
    by (simp add: sample_store_def)
  have o: "rl_user list_2 = 2" "rl_is_public list_2"
    by (simp_all add: list_2_def sample_list_def)
  have n: "list_2 \<notin> set (get_queryset sample_store 1)"
    using reading_lists_owner_only [of list_2 sample_store 1 2] o by simp
  have q: "req_method get_request = GET \<and> request_user sample_store get_request = Some 1 \<and>
           [list_1] = get_queryset sample_store 1"
    by code_simp
  show ?thesis using v m o n q by blast
qed

section \<open>Adding a book to a reading list\<close>

lemma filter_pk_owner:
  assumes d: "distinct (map rl_id ls)" and l: "l \<in> set ls"
  shows "filter (\<lambda>x. rl_id x = rl_id l \<and> rl_user x = u) ls
         = (if rl_user l = u then [l] else [])"
proof -
  have "filter (\<lambda>x. rl_id x = rl_id l \<and> rl_user x = u) ls
        = filter (\<lambda>x. rl_user x = u) (filter (\<lambda>x. rl_id x = rl_id l) ls)"
    by (simp add: conj_commute)
  also have "filter (\<lambda>x. rl_id x = rl_id l) ls = [l]"
    by (rule filter_key_unique [OF d l])
  finally show ?thesis by simp
qed

lemma books_add_target:
  assumes l: "l \<in> set (reading_lists s)"
  shows "\<exists>l' \<in> set (reading_lists (books_add s (rl_id l) b)).
           l' = l\<lparr>rl_books := (if b \<in> set (rl_books l) then rl_books l else rl_books l @ [b])\<rparr>"
  using l by (force simp: books_add_def)

lemma books_add_rest:
  "filter (\<lambda>x. rl_id x \<noteq> lid) (reading_lists (books_add s lid b))
   = filter (\<lambda>x. rl_id x \<noteq> lid) (reading_lists s)"
proof -
  have "filter (\<lambda>x. rl_id x \<noteq> lid) (map f ls) = filter (\<lambda>x. rl_id x \<noteq> lid) ls"
    if "\<And>x. rl_id (f x) = rl_id x" "\<And>x. rl_id x \<noteq> lid \<Longrightarrow> f x = x" for f and ls :: "reading_list list"
    using that by (induction ls) auto
  then show ?thesis by (simp add: books_add_def)
qed

text \<open>
  C5.  An authenticated user posts to add an existing book, in a store whose reading
  lists have unique keys (\<open>pk_ok\<close>).  With the key of an existing list that the
  requester does not own, the operation fails with \<open>Http404\<close> and changes nothing;
  with the key of a list the requester owns, the book is added to that list, and every
  other list, the books and the reviews stay as they are.  With neither a list nor a new
  name, the store is not changed, whatever its keys.  In the last two cases the response
  redirects to the book's detail page.
\<close>

theorem add_to_existing_list:
  assumes u: "request_user s request = Some u"
    and bk: "get_object_or_404 (books s) (\<lambda>b. book_id b = bid) = Inr bk"
    and post: "req_method request = POST"
  shows
    "(post_reading_list request = Pk (int (rl_id l)) \<and> l \<in> set (reading_lists s) \<and>
      pk_ok s \<and> rl_user l \<noteq> u
      \<longrightarrow> add_to_reading_list s request bid = (Inl Http404, s)) \<and>
     (post_reading_list request = Pk (int (rl_id l)) \<and> l \<in> set (reading_lists s) \<and>
      pk_ok s \<and> rl_user l = u
      \<longrightarrow> add_to_reading_list s request bid
            = (Inr (Redirect_book_detail bid), books_add s (rl_id l) bid) \<and>
          (\<exists>l' \<in> set (reading_lists (books_add s (rl_id l) bid)).
             rl_id l' = rl_id l \<and> rl_user l' = u \<and> rl_name l' = rl_name l \<and>
             set (rl_books l') = insert bid (set (rl_books l))) \<and>
          filter (\<lambda>x. rl_id x \<noteq> rl_id l) (reading_lists (books_add s (rl_id l) bid))
            = filter (\<lambda>x. rl_id x \<noteq> rl_id l) (reading_lists s) \<and>
          books (books_add s (rl_id l) bid) = books s \<and>
          reviews (books_add s (rl_id l) bid) = reviews s) \<and>
     (post_reading_list request = Missing \<and>
      (post_new_list_name request = None \<or> post_new_list_name request = Some [])
      \<longrightarrow> add_to_reading_list s request bid = (Inr (Redirect_book_detail bid), s))"
proof -
  have id: "book_id bk = bid"
    using get_object_or_404_Inr [OF bk] by simp
  show ?thesis
  proof (intro conjI impI)
    assume a: "post_reading_list request = Pk (int (rl_id l)) \<and> l \<in> set (reading_lists s) \<and>
      pk_ok s \<and> rl_user l \<noteq> u"
    then have "get_object_or_404 (reading_lists s)
                 (\<lambda>x. int (rl_id x) = int (rl_id l) \<and> rl_user x = u) = Inl Http404"
      by (simp add: get_object_or_404_def filter_pk_owner pk_ok_def)
    with a u bk post show "add_to_reading_list s request bid = (Inl Http404, s)"
      by (simp add: add_to_reading_list_def)
  next
    assume a: "post_reading_list request = Pk (int (rl_id l)) \<and> l \<in> set (reading_lists s) \<and>
      pk_ok s \<and> rl_user l = u"
    then have "get_object_or_404 (reading_lists s)
                 (\<lambda>x. int (rl_id x) = int (rl_id l) \<and> rl_user x = u) = Inr l"
      by (simp add: get_object_or_404_def filter_pk_owner pk_ok_def)
    with a u bk post id show "add_to_reading_list s request bid
            = (Inr (Redirect_book_detail bid), books_add s (rl_id l) bid)"
      by (simp add: add_to_reading_list_def)
    let ?l' = "l\<lparr>rl_books := (if bid \<in> set (rl_books l) then rl_books l
                                else rl_books l @ [bid])\<rparr>"
    have "?l' \<in> set (reading_lists (books_add s (rl_id l) bid))"
      using a books_add_target [of l s bid] by simp
    moreover have "rl_id ?l' = rl_id l \<and> rl_user ?l' = u \<and> rl_name ?l' = rl_name l \<and>
             set (rl_books ?l') = insert bid (set (rl_books l))"
      using a by auto
    ultimately show "\<exists>l' \<in> set (reading_lists (books_add s (rl_id l) bid)).
             rl_id l' = rl_id l \<and> rl_user l' = u \<and> rl_name l' = rl_name l \<and>
             set (rl_books l') = insert bid (set (rl_books l))"
      by (rule rev_bexI)
    show "filter (\<lambda>x. rl_id x \<noteq> rl_id l) (reading_lists (books_add s (rl_id l) bid))
            = filter (\<lambda>x. rl_id x \<noteq> rl_id l) (reading_lists s)"
      by (rule books_add_rest)
    show "books (books_add s (rl_id l) bid) = books s"
      "reviews (books_add s (rl_id l) bid) = reviews s"
      by (simp_all add: books_add_other)
  next
    assume "post_reading_list request = Missing \<and>
      (post_new_list_name request = None \<or> post_new_list_name request = Some [])"
    with u bk post id show "add_to_reading_list s request bid = (Inr (Redirect_book_detail bid), s)"
      by (auto simp: add_to_reading_list_def)
  qed
qed

lemma sample_users:
  "request_user sample_store sample_request = Some 1"
  "request_user sample_store request_list_1 = Some 1"
  "request_user sample_store request_list_2 = Some 1"
  "request_user sample_store request_nothing = Some 1"
  by code_simp+

lemma sample_book_2:
  "get_object_or_404 (books sample_store) (\<lambda>b. book_id b = 2) = Inr book_2"
  by code_simp

lemma sample_posts:
  "req_method sample_request = POST"
  "req_method request_list_1 = POST"
  "req_method request_list_2 = POST"
  "req_method request_nothing = POST"
  by code_simp+

lemma sample_lists:
  "list_1 \<in> set (reading_lists sample_store)" "list_2 \<in> set (reading_lists sample_store)"
  "pk_ok sample_store"
  "rl_id list_1 = 1" "rl_id list_2 = 2" "rl_user list_1 = 1" "rl_user list_2 = 2"
  "rl_books list_1 = [1]"
  by code_simp+

theorem add_to_existing_list_witness:
  "add_to_reading_list sample_store request_list_2 2 = (Inl Http404, sample_store) \<and>
   add_to_reading_list sample_store request_list_1 2
     = (Inr (Redirect_book_detail 2), books_add sample_store 1 2) \<and>
   (\<exists>l' \<in> set (reading_lists (books_add sample_store 1 2)).
      rl_id l' = 1 \<and> rl_user l' = 1 \<and> set (rl_books l') = {1, 2}) \<and>
   add_to_reading_list sample_store request_nothing 2
     = (Inr (Redirect_book_detail 2), sample_store)"
proof -
  have a: "add_to_reading_list sample_store request_list_2 2 = (Inl Http404, sample_store)"
    using add_to_existing_list [OF sample_users(3) sample_book_2 sample_posts(3), of list_2]
      sample_lists
    by (simp add: request_list_2_def)
  have b: "add_to_reading_list sample_store request_list_1 2
             = (Inr (Redirect_book_detail 2), books_add sample_store 1 2) \<and>
           (\<exists>l' \<in> set (reading_lists (books_add sample_store 1 2)).
              rl_id l' = 1 \<and> rl_user l' = 1 \<and> set (rl_books l') = {1, 2})"
    using add_to_existing_list [OF sample_users(2) sample_book_2 sample_posts(2), of list_1]
      sample_lists
    by (simp add: request_list_1_def insert_commute) blast
  have c: "add_to_reading_list sample_store request_nothing 2
             = (Inr (Redirect_book_detail 2), sample_store)"
    using add_to_existing_list [OF sample_users(4) sample_book_2 sample_posts(4)]
    by (simp add: request_nothing_def sample_request_def)
  show ?thesis using a b c by blast
qed

text \<open>
  C6.  An authenticated user posts to add an existing book, with no list chosen and a
  non-empty new name: one reading list is appended, with that name, owned by the caller
  and containing exactly that book; the lists that were there are unchanged when the key
  sequence is ahead of their keys (\<open>pk_ok\<close>).
\<close>

theorem add_to_new_list:
  assumes u: "request_user s request = Some u"
    and bk: "get_object_or_404 (books s) (\<lambda>b. book_id b = bid) = Inr bk"
    and post: "req_method request = POST"
    and missing: "post_reading_list request = Missing"
    and name: "post_new_list_name request = Some name" "name \<noteq> []"
  shows
    "fst (add_to_reading_list s request bid) = Inr (Redirect_book_detail bid) \<and>
     length (reading_lists (snd (add_to_reading_list s request bid)))
       = Suc (length (reading_lists s)) \<and>
     last (reading_lists (snd (add_to_reading_list s request bid)))
       = \<lparr>rl_id = next_reading_list_id s, rl_name = name, rl_user = u, rl_books = [bid],
          rl_description = [], rl_is_public = True, rl_created_at = req_time request\<rparr> \<and>
     (pk_ok s \<longrightarrow>
        butlast (reading_lists (snd (add_to_reading_list s request bid))) = reading_lists s) \<and>
     books (snd (add_to_reading_list s request bid)) = books s"
proof -
  have id: "book_id bk = bid"
    using get_object_or_404_Inr [OF bk] by simp
  let ?new = "\<lparr>rl_id = next_reading_list_id s, rl_name = name, rl_user = u, rl_books = [],
          rl_description = [], rl_is_public = True, rl_created_at = req_time request\<rparr>"
  let ?s1 = "s\<lparr>reading_lists := reading_lists s @ [?new],
               next_reading_list_id := Suc (next_reading_list_id s)\<rparr>"
  have r: "add_to_reading_list s request bid
           = (Inr (Redirect_book_detail bid), books_add ?s1 (next_reading_list_id s) bid)"
    using u bk post missing name id
    by (simp add: add_to_reading_list_def reading_list_create_def Let_def)
  have same: "map (\<lambda>l. if rl_id l = k then f l else l) ls = ls"
    if "\<forall>l \<in> set ls. rl_id l \<noteq> k" for k f and ls :: "reading_list list"
    using that by (induction ls) auto
  have fresh: "\<forall>l \<in> set (reading_lists s). rl_id l \<noteq> next_reading_list_id s" if "pk_ok s"
    using that by (auto simp: pk_ok_def)
  show ?thesis
    unfolding r using fresh by (simp add: books_add_def same)
qed

theorem add_to_new_list_witness:
  "fst (add_to_reading_list sample_store sample_request 2) = Inr (Redirect_book_detail 2) \<and>
   reading_lists (snd (add_to_reading_list sample_store sample_request 2))
     = [list_1, list_2,
        \<lparr>rl_id = 3, rl_name = ''To read'', rl_user = 1, rl_books = [2],
          rl_description = [], rl_is_public = True, rl_created_at = 100\<rparr>]"
proof -
  have n: "post_reading_list sample_request = Missing"
    "post_new_list_name sample_request = Some ''To read''" "''To read'' \<noteq> []"
    "req_time sample_request = 100" "next_reading_list_id sample_store = 3"
    "reading_lists sample_store = [list_1, list_2]"
    "pk_ok sample_store"
    by code_simp+
  from add_to_new_list [OF sample_users(1) sample_book_2 sample_posts(1) n(1,2,3)] n(7)
  have "fst (add_to_reading_list sample_store sample_request 2) = Inr (Redirect_book_detail 2)"
    and l: "last (reading_lists (snd (add_to_reading_list sample_store sample_request 2)))
       = \<lparr>rl_id = 3, rl_name = ''To read'', rl_user = 1, rl_books = [2],
          rl_description = [], rl_is_public = True, rl_created_at = 100\<rparr>"
    and b: "butlast (reading_lists (snd (add_to_reading_list sample_store sample_request 2)))
       = [list_1, list_2]"
    and len: "length (reading_lists (snd (add_to_reading_list sample_store sample_request 2))) = 3"
    by (simp_all add: n(4,5,6))
  moreover have "reading_lists (snd (add_to_reading_list sample_store sample_request 2)) \<noteq> []"
    using len by auto
  ultimately show ?thesis
    using append_butlast_last_id
      [of "reading_lists (snd (add_to_reading_list sample_store sample_request 2))"]
    by simp
qed

section \<open>Pages of a listing\<close>

lemma paginator_page_length:
  "paginator_page xs per_page n = Inr page \<Longrightarrow> length page \<le> per_page \<and> set page \<subseteq> set xs"
  by (auto simp: paginator_page_def Let_def split: if_splits dest: in_set_takeD in_set_dropD)

lemma paginate_queryset_length:
  "paginate_queryset xs per_page p = Inr page \<Longrightarrow> length page \<le> per_page \<and> set page \<subseteq> set xs"
  by (cases p) (auto simp: paginate_queryset_def dest: paginator_page_length)

lemma num_pages_pos: "0 < per_page \<Longrightarrow> 1 \<le> num_pages n per_page"
proof -
  assume "0 < per_page"
  then have "per_page \<le> max 1 n + per_page - 1" by simp
  then have "per_page div per_page \<le> (max 1 n + per_page - 1) div per_page"
    by (rule div_le_mono)
  with \<open>0 < per_page\<close> show ?thesis by (simp add: num_pages_def)
qed

lemma first_page:
  "0 < per_page \<Longrightarrow> paginate_queryset xs per_page Page_absent = Inr (take per_page xs)"
  using num_pages_pos [of per_page "length xs"]
  by (auto simp: paginate_queryset_def paginator_page_def Let_def)

text \<open>
  C8.  Every page the book listing returns has at most 12 books of the store, and every
  page the author listing returns has at most 20 authors of the store, whatever page is
  asked for; without a page parameter the first 12 books, or 20 authors, are returned.
\<close>

theorem list_views_page_size:
  "(BookListView s request = Inr page \<longrightarrow> length page \<le> 12 \<and> set page \<subseteq> set (books s)) \<and>
   (AuthorListView s request = Inr apage \<longrightarrow>
      length apage \<le> 20 \<and> set apage \<subseteq> set (authors s)) \<and>
   (get_page request = Page_absent \<longrightarrow>
      BookListView s request = Inr (take 12 (all_books s)) \<and>
      AuthorListView s request = Inr (take 20 (authors s)))"
proof (intro conjI impI)
  assume a: "BookListView s request = Inr page"
  then show "length page \<le> 12"
    using paginate_queryset_length [of "all_books s" 12 "get_page request" page]
    by (simp add: BookListView_def)
  from a show "set page \<subseteq> set (books s)"
    using paginate_queryset_length [of "all_books s" 12 "get_page request" page]
    by (simp add: BookListView_def set_all_books)
next
  assume a: "AuthorListView s request = Inr apage"
  then show "length apage \<le> 20" "set apage \<subseteq> set (authors s)"
    using paginate_queryset_length [of "authors s" 20 "get_page request" apage]
    by (simp_all add: AuthorListView_def)
next
  assume "get_page request = Page_absent"
  then show "BookListView s request = Inr (take 12 (all_books s))"
    "AuthorListView s request = Inr (take 20 (authors s))"
    by (simp_all add: BookListView_def AuthorListView_def first_page)
qed

theorem list_views_page_size_witness:
  "req_method get_request = GET \<and> get_page get_request = Page_absent \<and>
   BookListView sample_store get_request = Inr [book_3, book_2, book_1] \<and>
   length [book_3, book_2, book_1] \<le> 12 \<and>
   AuthorListView sample_store get_request = Inr (authors sample_store) \<and>
   length (authors sample_store) \<le> 20"
proof -
  have p: "get_page get_request = Page_absent" "req_method get_request = GET"
    by code_simp+
  have b: "take 12 (all_books sample_store) = [book_3, book_2, book_1]" by code_simp
  have a: "take 20 (authors sample_store) = authors sample_store" by code_simp
  show ?thesis
    using list_views_page_size
      [of sample_store get_request "[book_3, book_2, book_1]" "authors sample_store"]
      p b a
    by simp
qed

section \<open>Ratings and the average\<close>

lemma rating_choices: "x \<in> fst ` set RATING_CHOICES \<longleftrightarrow> 1 \<le> x \<and> x \<le> 5"
  by (auto simp: RATING_CHOICES_def)

lemma clean_rating_choice: "clean_rating v = Some k \<Longrightarrow> k \<in> fst ` set RATING_CHOICES"
proof -
  assume "clean_rating v = Some k"
  then obtain t p where "find (\<lambda>(k, label). str_int k = t) RATING_CHOICES = Some p" "k = fst p"
    by (auto simp: clean_rating_def split: option.splits)
  moreover from this have "p \<in> set RATING_CHOICES"
    by (metis find_Some_iff nth_mem)
  ultimately show ?thesis by simp
qed

lemma ReviewForm_rating: "ReviewForm request = Some (rating, rtext) \<Longrightarrow> 1 \<le> rating \<and> rating \<le> 5"
proof -
  assume "ReviewForm request = Some (rating, rtext)"
  then have "clean_rating (post_rating request) = Some rating"
    by (auto simp: ReviewForm_def split: option.splits)
  then show ?thesis using clean_rating_choice rating_choices by blast
qed

lemma add_review_stored:
  assumes "add_review s request bid = (Inr (Redirect_book_detail b'), s')"
  shows "\<exists>r. reviews s' = reviews s @ [r] \<and> 1 \<le> review_rating r \<and> review_rating r \<le> 5"
  using assms
  by (auto simp: add_review_def split: option.splits sum.splits if_splits
      dest!: review_save_Inr ReviewForm_rating)

lemma ratings_valid_add_review:
  "ratings_valid s \<Longrightarrow> ratings_valid (snd (add_review s request bid))"
proof -
  assume ok: "ratings_valid s"
  show ?thesis
  proof (cases "add_review s request bid")
    case (Pair res s')
    show ?thesis
    proof (cases "s' = s")
      case True
      with ok Pair show ?thesis by simp
    next
      case False
      with Pair obtain b' where "add_review s request bid = (Inr (Redirect_book_detail b'), s')"
        by (auto simp: add_review_def split: option.splits sum.splits if_splits)
      from add_review_stored [OF this] ok Pair show ?thesis
        by (auto simp: ratings_valid_def rating_choices)
    qed
  qed
qed

lemma ratings_valid_perform:
  assumes "ratings_valid s"
  shows "ratings_valid (perform s op)"
  using reviews_perform [of op s]
proof
  assume "\<exists>request bid. op = Add_review request bid"
  with assms show ?thesis by (auto simp: ratings_valid_add_review)
next
  assume "\<exists>P. reviews (perform s op) = filter P (reviews s)"
  with assms show ?thesis by (auto simp: ratings_valid_def)
qed

lemma sum_list_bounds:
  "\<forall>x \<in> set xs. a \<le> x \<and> x \<le> b \<Longrightarrow>
   a * int (length xs) \<le> sum_list xs \<and> sum_list xs \<le> b * int (length xs)"
  for a b :: int
  by (induction xs) (auto simp: algebra_simps)

lemma mean_bounds:
  assumes "xs \<noteq> []" "\<forall>x \<in> set xs. a \<le> x \<and> x \<le> b"
  shows "of_int a \<le> mean xs \<and> mean xs \<le> of_int b"
proof -
  have pos: "(0::rat) < of_nat (length xs)" using assms(1) by simp
  from sum_list_bounds [OF assms(2)]
  have "(of_int (a * int (length xs)) :: rat) \<le> of_int (sum_list xs)"
    "(of_int (sum_list xs) :: rat) \<le> of_int (b * int (length xs))"
    by (simp_all only: of_int_le_iff)
  then show ?thesis
    using pos by (simp add: mean_def pos_le_divide_eq pos_divide_le_eq)
qed

lemma average_rating_bounds:
  assumes "ratings_valid s" "book_reviews s b \<noteq> []"
  shows "1 \<le> average_rating t s b \<and> average_rating t s b \<le> 5"
proof -
  let ?xs = "map review_rating (book_reviews s b)"
  have "\<forall>x \<in> set ?xs. 1 \<le> x \<and> x \<le> 5"
    using assms(1) by (auto simp: ratings_valid_def rating_choices book_reviews_def)
  moreover have "?xs \<noteq> []" using assms(2) by simp
  ultimately have "of_int 1 \<le> mean ?xs \<and> mean ?xs \<le> of_int 5"
    by (intro mean_bounds)
  then have "of_int 1 \<le> py_round t (mean ?xs) 2 \<and> py_round t (mean ?xs) 2 \<le> of_int 5"
    using py_round_lower py_round_upper by blast
  then show ?thesis
    by (simp add: average_rating_nonempty [OF assms(2)])
qed

text \<open>
  C9.  A review stored through the review form has a rating among 1, 2, 3, 4 and 5, and
  every operation keeps all stored ratings among the choices.  In such a store, the
  \<open>average_rating\<close> of a book with at least one review lies between 1 and 5 and is not
  0, so it is 0 exactly when the book has no reviews.
\<close>

theorem form_ratings_bound_average:
  "(add_review s request bid = (Inr (Redirect_book_detail b'), s') \<longrightarrow>
      (\<exists>r. reviews s' = reviews s @ [r] \<and> review_rating r \<in> {1, 2, 3, 4, 5})) \<and>
   (ratings_valid s \<longrightarrow> ratings_valid (perform s op)) \<and>
   (ratings_valid s \<and> book_reviews s b \<noteq> [] \<longrightarrow>
      1 \<le> average_rating t s b \<and> average_rating t s b \<le> 5 \<and> average_rating t s b \<noteq> 0) \<and>
   (ratings_valid s \<longrightarrow> (average_rating t s b = 0 \<longleftrightarrow> book_reviews s b = []))"
proof (intro conjI impI)
  assume "add_review s request bid = (Inr (Redirect_book_detail b'), s')"
  from add_review_stored [OF this] obtain r where
    r: "reviews s' = reviews s @ [r]" "1 \<le> review_rating r" "review_rating r \<le> 5"
    by blast
  then have "review_rating r \<in> {1, 2, 3, 4, 5}" by auto
  with r(1) show "\<exists>r. reviews s' = reviews s @ [r] \<and> review_rating r \<in> {1, 2, 3, 4, 5}"
    by blast
next
  assume "ratings_valid s"
  then show "ratings_valid (perform s op)" by (rule ratings_valid_perform)
next
  assume a: "ratings_valid s \<and> book_reviews s b \<noteq> []"
  then have bd: "1 \<le> average_rating t s b \<and> average_rating t s b \<le> 5"
    by (intro average_rating_bounds) simp_all
  then show "1 \<le> average_rating t s b" "average_rating t s b \<le> 5" "average_rating t s b \<noteq> 0"
    by auto
next
  assume v: "ratings_valid s"
  show "average_rating t s b = 0 \<longleftrightarrow> book_reviews s b = []"
  proof
    assume z: "average_rating t s b = 0"
    show "book_reviews s b = []"
    proof (rule ccontr)
      assume "book_reviews s b \<noteq> []"
      from average_rating_bounds [OF v this, of t] z show False by simp
    qed
  next
    assume "book_reviews s b = []"
    then show "average_rating t s b = 0" by (rule average_rating_empty)
  qed
qed

theorem form_ratings_bound_average_witness:
  "ratings_valid sample_store \<and> book_reviews sample_store book_1 \<noteq> [] \<and>
   1 \<le> average_rating ties_down sample_store book_1 \<and>
   average_rating ties_down sample_store book_1 \<le> 5 \<and>
   book_reviews sample_store book_2 = [] \<and>
   average_rating ties_down sample_store book_2 = 0 \<and>
   ratings_valid (perform sample_store (Add_review sample_request 2)) \<and>
   fst (add_review sample_store sample_request 2) = Inr (Redirect_book_detail 2) \<and>
   (\<exists>r. reviews (snd (add_review sample_store sample_request 2)) = reviews sample_store @ [r] \<and>
        review_rating r \<in> {1, 2, 3, 4, 5})"
proof -
  have v: "ratings_valid sample_store" by code_simp
  have n: "book_reviews sample_store book_1 \<noteq> []" using sample_reviews_1 by auto
  have f: "fst (add_review sample_store sample_request 2) = Inr (Redirect_book_detail 2)"
    by code_simp
  then have e: "add_review sample_store sample_request 2
      = (Inr (Redirect_book_detail 2), snd (add_review sample_store sample_request 2))"
    by (simp add: prod_eq_iff)
  show ?thesis
    using form_ratings_bound_average
      [of sample_store sample_request 2 2 "snd (add_review sample_store sample_request 2)"
        "Add_review sample_request 2" book_1 ties_down]
      form_ratings_bound_average
      [of sample_store sample_request 2 2 "snd (add_review sample_store sample_request 2)"
        "Add_review sample_request 2" book_2 ties_down]
      v n f e sample_reviews_2
    by simp
qed

section \<open>Cascading deletion\<close>

lemma sample_fk_ok: "fk_ok sample_store"
  by code_simp

text \<open>
  C7.  Deleting an author leaves no author with that key, no book of that author and no
  review of such a book; deleting an existing book leaves no review of it and no reading
  list containing it; deleting a user leaves no review and no reading list of that user.
  No operation leaves a dangling reference: \<open>fk_ok\<close> is kept by every operation, the
  handlers that write, the saving of new rows and the deletions alike.
\<close>

theorem cascade_delete:
  "(\<forall>a \<in> set (authors (delete_author s aid)). author_id a \<noteq> aid) \<and>
   (\<forall>b \<in> set (books (delete_author s aid)). book_author b \<noteq> aid) \<and>
   (\<forall>r \<in> set (reviews (delete_author s aid)).
      \<forall>b \<in> set (books s). book_author b = aid \<longrightarrow> review_book r \<noteq> book_id b) \<and>
   (\<forall>b \<in> set (books (delete_book s bid)). book_id b \<noteq> bid) \<and>
   (bid \<in> book_id ` set (books s) \<longrightarrow>
      (\<forall>r \<in> set (reviews (delete_book s bid)). review_book r \<noteq> bid) \<and>
      (\<forall>l \<in> set (reading_lists (delete_book s bid)). bid \<notin> set (rl_books l))) \<and>
   uid \<notin> set (users (delete_user s uid)) \<and>
   (\<forall>r \<in> set (reviews (delete_user s uid)). review_user r \<noteq> uid) \<and>
   (\<forall>l \<in> set (reading_lists (delete_user s uid)). rl_user l \<noteq> uid) \<and>
   (fk_ok s \<longrightarrow> fk_ok (perform s op))"
proof (intro conjI impI)
  show "\<forall>a \<in> set (authors (delete_author s aid)). author_id a \<noteq> aid"
    by (simp add: delete_author_def Let_def)
  show "\<forall>b \<in> set (books (delete_author s aid)). book_author b \<noteq> aid"
    by (simp add: delete_author_def Let_def delete_books_where_simps)
  show "\<forall>r \<in> set (reviews (delete_author s aid)).
      \<forall>b \<in> set (books s). book_author b = aid \<longrightarrow> review_book r \<noteq> book_id b"
    by (auto simp: delete_author_def Let_def delete_books_where_simps)
  show "\<forall>b \<in> set (books (delete_book s bid)). book_id b \<noteq> bid"
    by (simp add: delete_book_def delete_books_where_simps)
  show "uid \<notin> set (users (delete_user s uid))"
    by (simp add: delete_user_def)
  show "\<forall>r \<in> set (reviews (delete_user s uid)). review_user r \<noteq> uid"
    by (simp add: delete_user_def)
  show "\<forall>l \<in> set (reading_lists (delete_user s uid)). rl_user l \<noteq> uid"
    by (simp add: delete_user_def)
next
  assume "bid \<in> book_id ` set (books s)"
  then have g: "bid \<in> book_id ` {b \<in> set (books s). book_id b = bid}" by auto
  then show "\<forall>r \<in> set (reviews (delete_book s bid)). review_book r \<noteq> bid"
    by (auto simp: delete_book_def delete_books_where_simps)
  from g show "\<forall>l \<in> set (reading_lists (delete_book s bid)). bid \<notin> set (rl_books l)"
    by (auto simp: delete_book_def delete_books_where_simps)
next
  assume "fk_ok s"
  then show "fk_ok (perform s op)" by (rule fk_ok_perform)
qed

theorem cascade_delete_witness:
  "fk_ok sample_store \<and> 1 \<in> book_id ` set (books sample_store) \<and>
   fk_ok (perform sample_store (Delete_author 1)) \<and>
   fk_ok (perform sample_store (Delete_book 1)) \<and>
   fk_ok (perform sample_store (Delete_user 1)) \<and>
   fk_ok (perform sample_store (Save_book (book_1\<lparr>book_author := 9\<rparr>) 70)) \<and>
   book_save sample_store (book_1\<lparr>book_author := 9\<rparr>) 70 = Inl IntegrityError \<and>
   books (delete_author sample_store 1) = [] \<and>
   reviews (delete_author sample_store 1) = [] \<and>
   map review_book (reviews (delete_book sample_store 1)) = [3, 3, 3] \<and>
   map rl_books (reading_lists (delete_book sample_store 1)) = [[], [2]] \<and>
   reading_lists (delete_user sample_store 1) = [list_2] \<and>
   map review_user (reviews (delete_user sample_store 1)) = [2, 2, 3]"
proof -
  have m: "1 \<in> book_id ` set (books sample_store)" by code_simp
  have e: "books (delete_author sample_store 1) = []"
    "reviews (delete_author sample_store 1) = []"
    "reading_lists (delete_user sample_store 1) = [list_2]"
    "map review_book (reviews (delete_book sample_store 1)) = [3, 3, 3]"
    "map rl_books (reading_lists (delete_book sample_store 1)) = [[], [2]]"
    "map review_user (reviews (delete_user sample_store 1)) = [2, 2, 3]"
    "book_save sample_store (book_1\<lparr>book_author := 9\<rparr>) 70 = Inl IntegrityError"
    by code_simp+
  have a: "fk_ok (perform sample_store (Delete_author 1))"
    using cascade_delete [of sample_store 1 1 1 "Delete_author 1"] sample_fk_ok by blast
  have b: "fk_ok (perform sample_store (Delete_book 1))"
    using cascade_delete [of sample_store 1 1 1 "Delete_book 1"] sample_fk_ok by blast
  have u: "fk_ok (perform sample_store (Delete_user 1))"
    using cascade_delete [of sample_store 1 1 1 "Delete_user 1"] sample_fk_ok by blast
  have c: "fk_ok (perform sample_store (Save_book (book_1\<lparr>book_author := 9\<rparr>) 70))"
    using cascade_delete
      [of sample_store 1 1 1 "Save_book (book_1\<lparr>book_author := 9\<rparr>) 70"] sample_fk_ok
    by blast
  show ?thesis using sample_fk_ok m e a b u c by blast
qed

end
